theory Spec2Isabelle
  imports Complex_Main "HOL-Library.Log_Nat"
begin

section \<open>Errors, warnings and arrays\<close>

text \<open>
  The module \<^verbatim>\<open>pydmd/varprodmd.py\<close> works on NumPy arrays of \<^verbatim>\<open>float64\<close> and
  \<^verbatim>\<open>complex128\<close>. The embedding idealises both as \<^typ>\<open>real\<close> and \<^typ>\<open>complex\<close>:
  rounding, overflow and NaN are outside the model, except where the source itself produces
  a NaN on exact data (a median of nothing, a quotient \<open>0/0\<close>); those places are written out.
  The sample count of \<^verbatim>\<open>select_best_samples_fast\<close> is the one integer the module reads off
  a rounded product; it is computed in binary64 arithmetic (section on double precision).
  Every Python exception is a value of \<open>error\<close>; both the invalid-argument and the
  not-fitted errors of the source are \<^verbatim>\<open>ValueError\<close>s and are told apart by their message.
\<close>

datatype error =
    ValueError string
  | IndexError string
  | ZeroDivisionError
  | LinAlgError string
  | AttributeError string

datatype warning = UserWarning string

definition ebind :: "error + 'a \<Rightarrow> ('a \<Rightarrow> error + 'b) \<Rightarrow> error + 'b" where
  "ebind m f = (case m of Inl e \<Rightarrow> Inl e | Inr x \<Rightarrow> f x)"

text \<open>
  An \<^verbatim>\<open>ndarray\<close> is its shape and its elements in row-major (C) order. One-dimensional
  arrays that are one-dimensional by construction (eigenvalues, solver parameters, index
  vectors) are plain lists.
\<close>

record 'a ndarray =
  shape :: "nat list"
  flat :: "'a list"

definition vec :: "'a list \<Rightarrow> 'a ndarray" where
  "vec xs = \<lparr>shape = [length xs], flat = xs\<rparr>"

definition size_nd :: "'a ndarray \<Rightarrow> nat" where
  "size_nd a = prod_list (shape a)"

text \<open>
  Broadcasting a one-dimensional value \<open>v\<close> to a target of \<open>n\<close> elements, as every
  assignment \<^verbatim>\<open>target[...] = v\<close> does: equal lengths, or a single element repeated
  (also onto zero elements); anything else raises.
\<close>

definition broadcast_to :: "nat \<Rightarrow> 'a list \<Rightarrow> error + 'a list" where
  "broadcast_to n v =
     (if length v = n then Inr v
      else if length v = 1 then Inr (replicate n (hd v))
      else Inl (ValueError ''could not broadcast input array''))"

text \<open>\<^verbatim>\<open>a[lo:hi] = v\<close> on a one-dimensional array; the slice bounds are clipped.\<close>

definition set_slice :: "nat \<Rightarrow> nat \<Rightarrow> 'a list \<Rightarrow> 'a list \<Rightarrow> error + 'a list" where
  "set_slice lo hi a v =
     (let hi' = min hi (length a); lo' = min lo hi' in
      ebind (broadcast_to (hi' - lo') v) (\<lambda>w. Inr (take lo' a @ w @ drop hi' a)))"

text \<open>\<^verbatim>\<open>z.real = v\<close> and \<^verbatim>\<open>z.imag = v\<close> on a one-dimensional complex array.\<close>

definition set_real :: "complex list \<Rightarrow> real list \<Rightarrow> error + complex list" where
  "set_real z v = ebind (broadcast_to (length z) v) (\<lambda>w. Inr (map2 (\<lambda>x c. Complex x (Im c)) w z))"

definition set_imag :: "complex list \<Rightarrow> real list \<Rightarrow> error + complex list" where
  "set_imag z v = ebind (broadcast_to (length z) v) (\<lambda>w. Inr (map2 (\<lambda>y c. Complex (Re c) y) w z))"

section \<open>The real split of the eigenvalues\<close>

text \<open>
  \<^verbatim>\<open>compute_varprodmd_any\<close>, before the solver is called:
  \<^verbatim>\<open>
    omegas_in = np.zeros((2 * omegas.shape[-1],), dtype=np.float64)
    omegas_in[: omegas.shape[-1]] = omegas.real
    omegas_in[omegas.shape[-1] :] = omegas.imag
  \<close>
\<close>

definition omegas_in :: "complex list \<Rightarrow> error + real list" where
  "omegas_in omegas =
     (let r = length omegas; z0 = replicate (2 * r) (0::real) in
      ebind (set_slice 0 r z0 (map Re omegas)) (\<lambda>z1.
        set_slice r (length z1) z1 (map Im omegas)))"

text \<open>
  \<^verbatim>\<open>__compute_dmd_rho\<close> and \<^verbatim>\<open>__compute_dmd_jac\<close>, first three lines:
  \<^verbatim>\<open>
    __alphas = np.zeros((alphas.shape[-1] // 2,), dtype=np.complex128)
    __alphas.real = alphas[: alphas.shape[-1] // 2]
    __alphas.imag = alphas[alphas.shape[-1] // 2 :]
  \<close>
  An odd length above one leaves one element too many for the imaginary parts, and the
  assignment raises.
\<close>

definition alphas_complex :: "real list \<Rightarrow> error + complex list" where
  "alphas_complex alphas =
     (let h = length alphas div 2; z0 = replicate h (0::complex) in
      ebind (set_real z0 (take h alphas)) (\<lambda>z1.
        set_imag z1 (drop h alphas)))"

section \<open>Rank estimation\<close>

text \<open>The rank specifier is \<^verbatim>\<open>Union[float, int]\<close>.\<close>

datatype rank_spec = RInt int | RFloat real

fun rank_value :: "rank_spec \<Rightarrow> real" where
  "rank_value (RInt i) = of_int i"
| "rank_value (RFloat x) = x"

text \<open>\<^verbatim>\<open>int(rank)\<close>: the identity on an \<^verbatim>\<open>int\<close>, truncation towards zero on a \<^verbatim>\<open>float\<close>.\<close>

fun rank_int :: "rank_spec \<Rightarrow> int" where
  "rank_int (RInt i) = i"
| "rank_int (RFloat x) = (if 0 \<le> x then \<lfloor>x\<rfloor> else \<lceil>x\<rceil>)"

text \<open>
  \<^verbatim>\<open>np.median\<close>: the middle of the sorted values, the mean of the two middle ones for an
  even count, and NaN (here \<open>None\<close>) for no value at all.
\<close>

definition median :: "real list \<Rightarrow> real option" where
  "median xs =
     (let s = sort xs; n = length xs in
      if n = 0 then None
      else if odd n then Some (s ! (n div 2))
      else Some ((s ! (n div 2 - 1) + s ! (n div 2)) / 2))"

fun cumsum_from :: "real \<Rightarrow> real list \<Rightarrow> real list" where
  "cumsum_from acc [] = []"
| "cumsum_from acc (x # xs) = (acc + x) # cumsum_from (acc + x) xs"

definition cumsum :: "real list \<Rightarrow> real list" where
  "cumsum xs = cumsum_from 0 xs"

text \<open>
  \<^verbatim>\<open>np.searchsorted(a, v)\<close> on an ascending array, \<^verbatim>\<open>side='left'\<close>: the number of leading
  elements below \<open>v\<close>.
\<close>

definition searchsorted :: "real list \<Rightarrow> real \<Rightarrow> nat" where
  "searchsorted a v = length (takeWhile (\<lambda>x. x < v) a)"

text \<open>
  \<^verbatim>\<open>__svht\<close>. The threshold \<open>tau_star\<close> is \<open>None\<close> when it is NaN (the median of an
  empty array); every comparison with it is then false. The two quotients for \<open>beta\<close> are
  Python float divisions, which raise on a zero divisor.
\<close>

definition svht :: "real ndarray \<Rightarrow> nat \<Rightarrow> nat \<Rightarrow> real option \<Rightarrow> error + nat" where
  "svht sigma_svd rows cols sigma =
     (if length (shape sigma_svd) \<noteq> 1 then Inl (ValueError ''Expected 1d array for diagonal matrix!'')
      else if \<not> rows > cols \<and> cols = 0 then Inl ZeroDivisionError
      else
        let beta = (if rows > cols then real cols / real rows else real rows / real cols);
            tau_star =
              (case sigma of
                 Some s \<Rightarrow>
                   (let lambda_star =
                          sqrt (2 * (beta + 1) + (8 * beta / (beta + 1 + sqrt (beta * beta + 14 * beta + 1))))
                    in Some (lambda_star * \<bar>s\<bar> * sqrt (if cols > rows then real cols else real rows)))
               | None \<Rightarrow>
                   (case median (flat sigma_svd) of
                      None \<Rightarrow> None
                    | Some med \<Rightarrow>
                        (let beta_square = beta * beta;
                             beta_cubic = beta * beta_square;
                             omega = 56 / 100 * beta_cubic - 95 / 100 * beta_square + 182 / 100 * beta + 143 / 100
                         in Some (med * omega))));
            rank =
              (case tau_star of
                 None \<Rightarrow> []
               | Some t \<Rightarrow> filter (\<lambda>i. flat sigma_svd ! i \<ge> t) [0..<length (flat sigma_svd)])
        in Inr (if rank = [] then last (shape sigma_svd) else last rank + 1))"

text \<open>
  \<^verbatim>\<open>__compute_rank\<close>. When all singular values are zero the energies are \<open>0/0\<close>, NaN, and
  \<^verbatim>\<open>searchsorted\<close> over NaNs returns 0.
\<close>

definition compute_rank :: "real ndarray \<Rightarrow> nat \<Rightarrow> nat \<Rightarrow> rank_spec \<Rightarrow> real option \<Rightarrow> error + nat" where
  "compute_rank sigma_x rows cols rank sigma =
     (let r = rank_value rank in
      if 0 < r \<and> r < 1 then
        (let squares = map (\<lambda>s. s * s) (flat sigma_x);
             total = sum_list squares;
             cumulative_energy = cumsum (map (\<lambda>q. q / total) squares);
             rank' = (if total = 0 then 0 else searchsorted cumulative_energy r) + 1
         in Inr (min rank' (size_nd sigma_x)))
      else if r = 0 then
        ebind (svht sigma_x rows cols sigma) (\<lambda>rank'. Inr (min rank' (size_nd sigma_x)))
      else if r \<ge> 1 then Inr (min (nat (rank_int rank)) (size_nd sigma_x))
      else Inl (ValueError ''Invalid rank specified''))"

section \<open>Two-dimensional arrays\<close>

text \<open>
  \<open>mat n m f\<close> is the \<open>n \<times> m\<close> array with entry \<open>f i j\<close> in row \<open>i\<close> and column \<open>j\<close>;
  \<open>at2 a i j\<close> reads an entry of a two-dimensional array.
\<close>

definition mat :: "nat \<Rightarrow> nat \<Rightarrow> (nat \<Rightarrow> nat \<Rightarrow> 'a) \<Rightarrow> 'a ndarray" where
  "mat n m f = \<lparr>shape = [n, m], flat = concat (map (\<lambda>i. map (f i) [0..<m]) [0..<n])\<rparr>"

definition nrows :: "'a ndarray \<Rightarrow> nat" where
  "nrows a = hd (shape a)"

definition ncols :: "'a ndarray \<Rightarrow> nat" where
  "ncols a = last (shape a)"

definition at2 :: "'a ndarray \<Rightarrow> nat \<Rightarrow> nat \<Rightarrow> 'a" where
  "at2 a i j = flat a ! (i * ncols a + j)"

text \<open>\<^verbatim>\<open>a[:, idx]\<close> with an index vector: the columns \<open>idx\<close> of \<open>a\<close>, in that order.\<close>

definition take_cols :: "'a ndarray \<Rightarrow> nat list \<Rightarrow> 'a ndarray" where
  "take_cols a idx = mat (nrows a) (length idx) (\<lambda>i j. at2 a i (idx ! j))"

section \<open>Double-precision arithmetic\<close>

text \<open>
  A finite Python \<^verbatim>\<open>float\<close> is a binary64 number \<open>s \<sqdot> 2\<^sup>e\<close> with integers \<open>s\<close>, \<open>e\<close> and
  \<open>\<bar>s\<bar> < 2\<^sup>5\<^sup>3\<close>. \<open>F64 s e\<close> denotes \<open>s \<sqdot> 2\<^sup>e\<close>; \<open>fval\<close> is its value. Every operation
  computes the exact result and rounds it with \<open>fl\<close> to 53 significant bits, to nearest and
  on a tie to the even significand (the IEEE 754 default, which CPython uses). The exponent
  is not bounded: overflow and gradual underflow are outside the model. Neither occurs in
  \<^verbatim>\<open>data.shape[-1] * (1.0 - comp)\<close> for \<open>0 < comp < 1\<close>: the difference lies in
  \<open>[2\<^sup>-\<^sup>5\<^sup>3, 1]\<close> and the product between that and the number of columns.
\<close>

datatype float64 = F64 (sig: int) (expo: int)

definition fval :: "float64 \<Rightarrow> real" where
  "fval x = real_of_int (sig x) * 2 powi expo x"

text \<open>\<open>s / 2\<^sup>k\<close> for \<open>s \<ge> 0\<close>, rounded to the nearest integer, a tie to the even one.\<close>

definition round_even :: "int \<Rightarrow> nat \<Rightarrow> int" where
  "round_even s k =
     (let q = s div 2 ^ k; r = s mod 2 ^ k in
      if 2 * r < 2 ^ k then q
      else if 2 ^ k < 2 * r then q + 1
      else if even q then q else q + 1)"

definition fl :: "float64 \<Rightarrow> float64" where
  "fl x =
     (let n = nat (bitlen \<bar>sig x\<bar>) in
      if n \<le> 53 then x
      else F64 (sgn (sig x) * round_even \<bar>sig x\<bar> (n - 53)) (expo x + int (n - 53)))"

text \<open>\<^verbatim>\<open>float(i)\<close>, the conversion Python applies to an \<^verbatim>\<open>int\<close> operand of a float product.\<close>

definition f_of_int :: "int \<Rightarrow> float64" where
  "f_of_int i = fl (F64 i 0)"

definition f_sub :: "float64 \<Rightarrow> float64 \<Rightarrow> float64" where
  "f_sub x y =
     (let e = min (expo x) (expo y) in
      fl (F64 (sig x * 2 ^ nat (expo x - e) - sig y * 2 ^ nat (expo y - e)) e))"

definition f_mul :: "float64 \<Rightarrow> float64 \<Rightarrow> float64" where
  "f_mul x y = fl (F64 (sig x * sig y) (expo x + expo y))"

text \<open>The comparison \<^verbatim>\<open>x < y\<close>; it is exact.\<close>

definition f_less :: "float64 \<Rightarrow> float64 \<Rightarrow> bool" where
  "f_less x y =
     (let e = min (expo x) (expo y) in
      sig x * 2 ^ nat (expo x - e) < sig y * 2 ^ nat (expo y - e))"

text \<open>\<^verbatim>\<open>int(x)\<close>: truncation towards zero.\<close>

definition f_trunc :: "float64 \<Rightarrow> int" where
  "f_trunc x =
     (if 0 \<le> expo x then sig x * 2 ^ nat (expo x)
      else sgn (sig x) * (\<bar>sig x\<bar> div 2 ^ nat (- expo x)))"

text \<open>A Python \<^verbatim>\<open>float\<close>: finite, an infinity or a NaN.\<close>

datatype pyfloat = Finite float64 | PosInf | NegInf | NaN

section \<open>Sample selection\<close>

text \<open>
  \<^verbatim>\<open>select_best_samples_fast\<close>. The pivot vector of SciPy's column-pivoted QR
  (\<^verbatim>\<open>qr(data, mode="economic", pivoting=True)[-1]\<close>) is a parameter \<open>qr_pivoting\<close>; SciPy
  documents it as a permutation of the column indices. The guard \<^verbatim>\<open>0 < comp < 1\<close> is false
  of both infinities and of NaN. \<^verbatim>\<open>n_samples\<close> is Python's
  \<^verbatim>\<open>int(data.shape[-1] * (1.0 - comp))\<close>: the column count converted to a float, the rounded
  difference, the rounded product, truncated; it is never negative, so the slice
  \<^verbatim>\<open>pcolumn[:n_samples]\<close> is a prefix. The parameter \<^verbatim>\<open>comp\<close> is written \<open>compr\<close>.
\<close>

definition select_best_samples_fast ::
  "(complex ndarray \<Rightarrow> error + nat list) \<Rightarrow> complex ndarray \<Rightarrow> pyfloat \<Rightarrow> error + nat list" where
  "select_best_samples_fast qr_pivoting data compr =
     (if length (shape data) \<noteq> 2 then Inl (ValueError ''Expected 2D array!'')
      else case compr of
        Finite c \<Rightarrow>
          if \<not> (f_less (F64 0 0) c \<and> f_less c (F64 1 0))
          then Inl (ValueError ''Compression must be in (0, 1)]'')
          else
            let n_samples =
              nat (f_trunc (f_mul (f_of_int (int (last (shape data)))) (f_sub (F64 1 0) c))) in
            ebind (qr_pivoting data) (\<lambda>pcolumn. Inr (take n_samples pcolumn))
      | _ \<Rightarrow> Inl (ValueError ''Compression must be in (0, 1)]''))"

section \<open>Sorting the eigenvalues\<close>

text \<open>The option \<^verbatim>\<open>sorted_eigs\<close> is \<^verbatim>\<open>Union[bool, str]\<close>.\<close>

datatype bool_or_str = PBool bool | PStr string

text \<open>\<^verbatim>\<open>np.var\<close>: the mean of the squared deviations from the mean.\<close>

definition var :: "real list \<Rightarrow> real" where
  "var xs =
     (let n = real (length xs); mu = sum_list xs / n
      in sum_list (map (\<lambda>x. (x - mu) * (x - mu)) xs) / n)"

text \<open>\<^verbatim>\<open>np.argmax\<close>: the first index of the largest element.\<close>

definition argmax :: "real list \<Rightarrow> nat" where
  "argmax xs = (let m = fold max xs (hd xs) in length (takeWhile (\<lambda>x. x \<noteq> m) xs))"

text \<open>
  \<^verbatim>\<open>np.argsort\<close>: the indices that sort the array in ascending order. NumPy leaves the
  order of equal keys open; the model keeps them in their original order.
\<close>

definition argsort :: "real list \<Rightarrow> nat list" where
  "argsort a = sort_key (\<lambda>i. a ! i) [0..<length a]"

text \<open>
  The sort key chosen in \<^verbatim>\<open>VarProOperator.compute_operator\<close> for a string policy. For
  \<^verbatim>\<open>"auto"\<close> the candidates are \<^verbatim>\<open>eigenvalues.real\<close>, \<^verbatim>\<open>eigenvalues.imag\<close> and
  \<^verbatim>\<open>np.abs(eigenvalues)\<close>, and the one of largest variance is taken.
\<close>

definition eigs_abs :: "string \<Rightarrow> complex list \<Rightarrow> error + real list" where
  "eigs_abs policy eigenvalues =
     (if policy = ''auto'' then
        (let eigs_real = map Re eigenvalues;
             eigs_imag = map Im eigenvalues;
             eigs_abs' = map cmod eigenvalues;
             var_real = var eigs_real;
             var_imag = var eigs_imag;
             var_abs = var eigs_abs';
             array = [var_real, var_imag, var_abs]
         in Inr ([eigs_real, eigs_imag, eigs_abs'] ! argmax array))
      else if policy = ''real'' then Inr (map (\<lambda>z. \<bar>Re z\<bar>) eigenvalues)
      else if policy = ''imag'' then Inr (map (\<lambda>z. \<bar>Im z\<bar>) eigenvalues)
      else if policy = ''abs'' then Inr (map cmod eigenvalues)
      else Inl (ValueError (policy @ '' not supported!'')))"

text \<open>
  Lines 641 to 672 of \<^verbatim>\<open>compute_operator\<close>: the lazy rewrite of \<^verbatim>\<open>True\<close> to \<^verbatim>\<open>"auto"\<close>,
  the choice of the key, and the permutation of eigenvalues, modes and amplitudes by
  \<^verbatim>\<open>np.argsort(eigs_abs)[::-1]\<close>. The result is the stored policy, the modes, the
  eigenvalues and the amplitudes.
\<close>

definition sort_eigs ::
  "bool_or_str \<Rightarrow> complex ndarray \<Rightarrow> complex list \<Rightarrow> real list \<Rightarrow>
   error + (bool_or_str \<times> complex ndarray \<times> complex list \<times> real list)" where
  "sort_eigs sorted_eigs modes eigenvalues eigenf =
     (let sorted_eigs' = (case sorted_eigs of PBool True \<Rightarrow> PStr ''auto'' | p \<Rightarrow> p) in
      case sorted_eigs' of
        PBool b \<Rightarrow> Inr (sorted_eigs', modes, eigenvalues, eigenf)
      | PStr policy \<Rightarrow>
          ebind (eigs_abs policy eigenvalues) (\<lambda>key.
            let idx = rev (argsort key)
            in Inr (sorted_eigs', take_cols modes idx, map (\<lambda>i. eigenvalues ! i) idx,
                    map (\<lambda>i. eigenf ! i) idx)))"

section \<open>Array operations\<close>

text \<open>
  The NumPy operations the residual and the Jacobian are built from, each with the shape
  check NumPy makes: a mismatch raises \<^verbatim>\<open>ValueError\<close>, an index out of range
  \<^verbatim>\<open>IndexError\<close>.
\<close>

definition zeros :: "nat \<Rightarrow> nat \<Rightarrow> real ndarray" where
  "zeros n m = mat n m (\<lambda>i j. 0)"

definition map_nd :: "('a \<Rightarrow> 'b) \<Rightarrow> 'a ndarray \<Rightarrow> 'b ndarray" where
  "map_nd f a = \<lparr>shape = shape a, flat = map f (flat a)\<rparr>"

text \<open>\<^verbatim>\<open>np.outer(a, b)\<close>.\<close>

definition outer :: "complex list \<Rightarrow> complex list \<Rightarrow> complex ndarray" where
  "outer a b = mat (length a) (length b) (\<lambda>i j. a ! i * b ! j)"

text \<open>\<^verbatim>\<open>a.conj().T\<close>.\<close>

definition ctranspose :: "complex ndarray \<Rightarrow> complex ndarray" where
  "ctranspose a = mat (ncols a) (nrows a) (\<lambda>i j. cnj (at2 a j i))"

text \<open>\<^verbatim>\<open>a.T\<close>.\<close>

definition transpose_nd :: "'a ndarray \<Rightarrow> 'a ndarray" where
  "transpose_nd a = mat (ncols a) (nrows a) (\<lambda>i j. at2 a j i)"

text \<open>\<^verbatim>\<open>a @ b\<close> on two-dimensional arrays.\<close>

definition matmul :: "complex ndarray \<Rightarrow> complex ndarray \<Rightarrow> error + complex ndarray" where
  "matmul a b =
     (if ncols a = nrows b
      then Inr (mat (nrows a) (ncols b) (\<lambda>i j. \<Sum>k<ncols a. at2 a i k * at2 b k j))
      else Inl (ValueError ''shapes not aligned''))"

text \<open>
  \<^verbatim>\<open>np.linalg.multi_dot([a, b, c])\<close>: the product of the chain; it raises when either
  pair of inner dimensions differs, in whichever order the products are taken.
\<close>

definition multi_dot3 ::
  "complex ndarray \<Rightarrow> complex ndarray \<Rightarrow> complex ndarray \<Rightarrow> error + complex ndarray" where
  "multi_dot3 a b c = ebind (matmul a b) (\<lambda>ab. matmul ab c)"

text \<open>\<^verbatim>\<open>v @ a\<close> for a one-dimensional \<open>v\<close> and a two-dimensional \<open>a\<close>.\<close>

definition vecmat :: "complex list \<Rightarrow> complex ndarray \<Rightarrow> error + complex list" where
  "vecmat v a =
     (if length v = nrows a
      then Inr (map (\<lambda>j. \<Sum>k<length v. v ! k * at2 a k j) [0..<ncols a])
      else Inl (ValueError ''shapes not aligned''))"

text \<open>Broadcasting of two dimensions: equal, or one of them 1.\<close>

definition bdim :: "nat \<Rightarrow> nat \<Rightarrow> nat option" where
  "bdim a b = (if a = b then Some a else if a = 1 then Some b else if b = 1 then Some a else None)"

text \<open>An elementwise binary operation on one-dimensional arrays.\<close>

definition bcast1 :: "('a \<Rightarrow> 'b \<Rightarrow> 'c) \<Rightarrow> 'a list \<Rightarrow> 'b list \<Rightarrow> error + 'c list" where
  "bcast1 f x y =
     (case bdim (length x) (length y) of
        Some n \<Rightarrow>
          Inr (map (\<lambda>i. f (x ! (if length x = 1 then 0 else i)) (y ! (if length y = 1 then 0 else i))) [0..<n])
      | None \<Rightarrow> Inl (ValueError ''operands could not be broadcast together''))"

text \<open>An elementwise binary operation on two-dimensional arrays.\<close>

definition bcast2 :: "('a \<Rightarrow> 'b \<Rightarrow> 'c) \<Rightarrow> 'a ndarray \<Rightarrow> 'b ndarray \<Rightarrow> error + 'c ndarray" where
  "bcast2 f a b =
     (case (bdim (nrows a) (nrows b), bdim (ncols a) (ncols b)) of
        (Some n, Some m) \<Rightarrow>
          Inr (mat n m (\<lambda>i j.
            f (at2 a (if nrows a = 1 then 0 else i) (if ncols a = 1 then 0 else j))
              (at2 b (if nrows b = 1 then 0 else i) (if ncols b = 1 then 0 else j))))
      | _ \<Rightarrow> Inl (ValueError ''operands could not be broadcast together''))"

definition sub_nd :: "complex ndarray \<Rightarrow> complex ndarray \<Rightarrow> error + complex ndarray" where
  "sub_nd a b = bcast2 (\<lambda>x y. x - y) a b"

text \<open>\<^verbatim>\<open>a * s.reshape((1, -1))\<close>: column \<open>j\<close> of \<open>a\<close> scaled by \<open>s[j]\<close>.\<close>

definition mul_row :: "complex ndarray \<Rightarrow> real list \<Rightarrow> error + complex ndarray" where
  "mul_row a s = bcast2 (\<lambda>x y. x * complex_of_real y) a (mat 1 (length s) (\<lambda>i j. s ! j))"

text \<open>\<^verbatim>\<open>a[:, j]\<close> and \<^verbatim>\<open>a[j, :]\<close>.\<close>

definition col :: "'a ndarray \<Rightarrow> nat \<Rightarrow> error + 'a list" where
  "col a j =
     (if j < ncols a then Inr (map (\<lambda>i. at2 a i j) [0..<nrows a])
      else Inl (IndexError ''index out of bounds for axis 1''))"

definition row :: "'a ndarray \<Rightarrow> nat \<Rightarrow> error + 'a list" where
  "row a i =
     (if i < nrows a then Inr (map (\<lambda>j. at2 a i j) [0..<ncols a])
      else Inl (IndexError ''index out of bounds for axis 0''))"

text \<open>\<^verbatim>\<open>a[lo:hi, j] = v\<close>.\<close>

definition set_col :: "real ndarray \<Rightarrow> nat \<Rightarrow> nat \<Rightarrow> nat \<Rightarrow> real list \<Rightarrow> error + real ndarray" where
  "set_col a lo hi j v =
     (if \<not> j < ncols a then Inl (IndexError ''index out of bounds for axis 1'')
      else
        let hi' = min hi (nrows a); lo' = min lo hi' in
        ebind (broadcast_to (hi' - lo') v) (\<lambda>w.
          Inr (mat (nrows a) (ncols a)
                 (\<lambda>i c. if c = j \<and> lo' \<le> i \<and> i < hi' then w ! (i - lo') else at2 a i c))))"

section \<open>The residual and the Jacobian\<close>

text \<open>
  \<^verbatim>\<open>__OptimizeHelper\<close>: the scratch state shared by the residual and the Jacobian. The
  singular values of NumPy's SVD are real.
\<close>

record opthelper =
  phi :: "complex ndarray"
  u_svd :: "complex ndarray"
  s_inv :: "real list"
  v_svd :: "complex ndarray"
  b_matrix :: "complex ndarray"
  rho :: "complex ndarray"

type_synonym svd_fun = "complex ndarray \<Rightarrow> error + (complex ndarray \<times> real list \<times> complex ndarray)"

text \<open>
  \<^verbatim>\<open>__compute_dmd_rho\<close>. The economy SVD (\<^verbatim>\<open>np.linalg.svd\<close>) is the parameter \<open>svd\<close>,
  returning \<open>U\<close>, the singular values and \<open>V\<^sup>H\<close>, or LAPACK's error. The data are a
  two-dimensional array, as \<^verbatim>\<open>compute_varprodmd_any\<close> passes them. The function returns the
  real residual and the updated helper.
\<close>

definition compute_dmd_rho ::
  "svd_fun \<Rightarrow> real list \<Rightarrow> real list \<Rightarrow> complex ndarray \<Rightarrow> opthelper \<Rightarrow>
   error + (real list \<times> opthelper)" where
  "compute_dmd_rho svd alphas time data opthelper =
     ebind (alphas_complex alphas) (\<lambda>alphas'.
     let phi' = map_nd exp (outer (map complex_of_real time) alphas') in
     ebind (svd phi') (\<lambda>(u, s, v_t).
     let s_inv' = map (\<lambda>x. if x \<noteq> 0 then 1 / x else 0) s in
     ebind (multi_dot3 u (ctranspose u) data) (\<lambda>proj.
     ebind (sub_nd data proj) (\<lambda>rho'.
     let rho_flat = flat rho';
         n = length rho_flat in
     ebind (set_slice 0 n (replicate (2 * n) 0) (map Re rho_flat)) (\<lambda>r1.
     ebind (set_slice n (length r1) r1 (map Im rho_flat)) (\<lambda>rho_out.
     let v_svd' = ctranspose v_t in
     ebind (mul_row v_svd' s_inv') (\<lambda>vs.
     ebind (multi_dot3 vs (ctranspose u) data) (\<lambda>b.
     Inr (rho_out,
          opthelper\<lparr>phi := phi', u_svd := u, s_inv := s_inv', v_svd := v_svd',
                    rho := rho', b_matrix := b\<rparr>)))))))))"

text \<open>
  One pass of the loop of \<^verbatim>\<open>__compute_dmd_jac\<close>: the flattened complex matrix
  \<^verbatim>\<open>__jac_flat\<close> for the index \<open>j\<close>.
\<close>

definition jac_flat :: "opthelper \<Rightarrow> real list \<Rightarrow> nat \<Rightarrow> error + complex list" where
  "jac_flat opthelper time j =
     ebind (col (phi opthelper) j) (\<lambda>phi_j.
     ebind (bcast1 (\<lambda>t z. complex_of_real t * z) time phi_j) (\<lambda>d_phi_j.
     ebind (row (b_matrix opthelper) j) (\<lambda>b_j.
     let outer' = outer d_phi_j b_j in
     ebind (multi_dot3 (u_svd opthelper) (ctranspose (u_svd opthelper)) outer') (\<lambda>proj.
     ebind (sub_nd outer' proj) (\<lambda>a_j.
     ebind (mul_row (u_svd opthelper) (s_inv opthelper)) (\<lambda>us.
     ebind (row (v_svd opthelper) j) (\<lambda>v_j.
     ebind (vecmat (map cnj d_phi_j) (rho opthelper)) (\<lambda>w.
     ebind (matmul us (outer (map cnj v_j) w)) (\<lambda>g_j.
     ebind (sub_nd (map_nd uminus a_j) g_j) (\<lambda>jac.
     Inr (flat jac)))))))))))"

text \<open>The four block assignments into \<^verbatim>\<open>jac_out\<close> for the index \<open>j\<close>; \<open>l\<close> is \<^verbatim>\<open>__alphas.shape[-1]\<close>.\<close>

definition jac_assign :: "nat \<Rightarrow> real ndarray \<Rightarrow> nat \<Rightarrow> complex list \<Rightarrow> error + real ndarray" where
  "jac_assign l jac_out j jf =
     (let half = nrows jac_out div 2 in
      ebind (set_col jac_out 0 half j (map Re jf)) (\<lambda>j1.
      ebind (set_col j1 half (nrows j1) j (map Im jf)) (\<lambda>j2.
      ebind (set_col j2 0 half (l + j) (map (\<lambda>z. - Im z) jf)) (\<lambda>j3.
      set_col j3 half (nrows j3) (l + j) (map Re jf)))))"

fun jac_loop :: "opthelper \<Rightarrow> real list \<Rightarrow> nat \<Rightarrow> nat list \<Rightarrow> real ndarray \<Rightarrow> error + real ndarray" where
  "jac_loop opthelper time l [] jac_out = Inr jac_out"
| "jac_loop opthelper time l (j # js) jac_out =
     ebind (jac_flat opthelper time j) (\<lambda>jf.
     ebind (jac_assign l jac_out j jf) (\<lambda>jac_out'.
     jac_loop opthelper time l js jac_out'))"

text \<open>\<^verbatim>\<open>__compute_dmd_jac\<close>.\<close>

definition compute_dmd_jac ::
  "real list \<Rightarrow> real list \<Rightarrow> complex ndarray \<Rightarrow> opthelper \<Rightarrow> error + real ndarray" where
  "compute_dmd_jac alphas time data opthelper =
     ebind (alphas_complex alphas) (\<lambda>alphas'.
     let jac_out = zeros (2 * size_nd data) (length alphas) in
     jac_loop opthelper time (length alphas') [0..<length alphas'] jac_out)"


section \<open>The fit: \<^verbatim>\<open>compute_varprodmd_any\<close>\<close>

text \<open>
  The routines of NumPy and SciPy that the fit calls are parameters: the economy SVD, the
  eigenvalues of a square matrix, the pivot vector of the column-pivoted QR factorisation and
  the nonlinear least-squares solver. The solver receives the residual and the Jacobian as
  functions of the parameter vector and of the helper they share, the start vector and the
  helper; it returns the \<^verbatim>\<open>OptimizeResult\<close>, of which the fit reads \<^verbatim>\<open>x\<close>, and the helper as the
  last evaluation left it. The solver options \<^verbatim>\<open>optargs\<close> are of an arbitrary type \<open>'o\<close>.
\<close>

record optimize_result =
  opt_x :: "real list"

type_synonym residual_fun = "real list \<Rightarrow> opthelper \<Rightarrow> error + (real list \<times> opthelper)"

type_synonym jacobian_fun = "real list \<Rightarrow> opthelper \<Rightarrow> error + real ndarray"

record 'o backend =
  linalg_svd :: svd_fun
  linalg_eigvals :: "complex ndarray \<Rightarrow> error + complex list"
  linalg_qr :: "complex ndarray \<Rightarrow> error + nat list"
  optimize_least_squares ::
    "'o \<Rightarrow> residual_fun \<Rightarrow> jacobian_fun \<Rightarrow> real list \<Rightarrow> opthelper \<Rightarrow>
     error + (optimize_result \<times> opthelper)"

text \<open>The slices \<^verbatim>\<open>a[:, :r]\<close>, \<^verbatim>\<open>a[:r, :]\<close>, \<^verbatim>\<open>a[:, :-1]\<close> and \<^verbatim>\<open>a[:, 1:]\<close>.\<close>

definition cols_upto :: "'a ndarray \<Rightarrow> nat \<Rightarrow> 'a ndarray" where
  "cols_upto a r = mat (nrows a) (min r (ncols a)) (\<lambda>i j. at2 a i j)"

definition rows_upto :: "'a ndarray \<Rightarrow> nat \<Rightarrow> 'a ndarray" where
  "rows_upto a r = mat (min r (nrows a)) (ncols a) (\<lambda>i j. at2 a i j)"

definition cols_butlast :: "'a ndarray \<Rightarrow> 'a ndarray" where
  "cols_butlast a = mat (nrows a) (ncols a - 1) (\<lambda>i j. at2 a i j)"

definition cols_from1 :: "'a ndarray \<Rightarrow> 'a ndarray" where
  "cols_from1 a = mat (nrows a) (ncols a - 1) (\<lambda>i j. at2 a i (j + 1))"

text \<open>
  \<^verbatim>\<open>a * s.reshape((-1, 1))\<close>, \<^verbatim>\<open>a / d.reshape((1, -1))\<close> and \<^verbatim>\<open>a + b\<close>. NumPy divides by zero
  without an exception (the quotient is an infinity or a NaN); the callers below write out
  where such an entry ends.
\<close>

definition mul_col :: "complex ndarray \<Rightarrow> real list \<Rightarrow> error + complex ndarray" where
  "mul_col a s = bcast2 (\<lambda>x y. x * complex_of_real y) a (mat (length s) 1 (\<lambda>i j. s ! i))"

definition div_row :: "complex ndarray \<Rightarrow> real list \<Rightarrow> error + complex ndarray" where
  "div_row a d = bcast2 (\<lambda>x y. x / complex_of_real y) a (mat 1 (length d) (\<lambda>i j. d ! j))"

definition add_nd :: "complex ndarray \<Rightarrow> complex ndarray \<Rightarrow> error + complex ndarray" where
  "add_nd a b = bcast2 (\<lambda>x y. x + y) a b"

text \<open>\<^verbatim>\<open>a[:, idx]\<close> and \<^verbatim>\<open>v[idx]\<close> with an index vector; an index out of range raises.\<close>

definition index_cols :: "'a ndarray \<Rightarrow> nat list \<Rightarrow> error + 'a ndarray" where
  "index_cols a idx =
     (if \<forall>i\<in>set idx. i < ncols a then Inr (take_cols a idx)
      else Inl (IndexError ''index out of bounds for axis 1''))"

definition index_vec :: "'a list \<Rightarrow> nat list \<Rightarrow> error + 'a list" where
  "index_vec v idx =
     (if \<forall>i\<in>set idx. i < length v then Inr (map (\<lambda>i. v ! i) idx)
      else Inl (IndexError ''index out of bounds for axis 0''))"

text \<open>\<^verbatim>\<open>np.linalg.norm(a, axis=0)\<close>: the Euclidean norms of the columns.\<close>

definition norm_axis0 :: "complex ndarray \<Rightarrow> real list" where
  "norm_axis0 a = map (\<lambda>j. sqrt (\<Sum>i<nrows a. (cmod (at2 a i j))\<^sup>2)) [0..<ncols a]"

text \<open>
  \<^verbatim>\<open>__compute_dmd_ev\<close>, the initial guess of the eigenvalues. \<^verbatim>\<open>np.reciprocal\<close> of a zero
  singular value is an infinity, and \<open>x_next\<close> holds an infinity or a NaN when the caller
  divided by a zero time step, which the flag \<open>x_next_finite\<close> records; in both cases every
  entry of \<^verbatim>\<open>a_approx\<close> is an infinity or a NaN and \<^verbatim>\<open>np.linalg.eigvals\<close> rejects the matrix.
\<close>

definition compute_dmd_ev ::
  "svd_fun \<Rightarrow> (complex ndarray \<Rightarrow> error + complex list) \<Rightarrow> complex ndarray \<Rightarrow>
   complex ndarray \<Rightarrow> bool \<Rightarrow> nat \<Rightarrow> error + complex list" where
  "compute_dmd_ev svd eigvals x_current x_next x_next_finite rank =
     ebind (svd x_current) (\<lambda>(u_x, sigma_x, v_x_t).
     ebind (compute_rank (vec sigma_x) (nrows x_current) (ncols x_current) (RInt (int rank)) None)
       (\<lambda>rank'.
     let sigma = take rank' sigma_x;
         sigma_inv_approx = map (\<lambda>x. 1 / x) sigma in
     ebind (mul_row (ctranspose (rows_upto v_x_t rank')) sigma_inv_approx) (\<lambda>w.
     ebind (multi_dot3 (ctranspose (cols_upto u_x rank')) x_next w) (\<lambda>a_approx.
     if x_next_finite \<and> 0 \<notin> set sigma then eigvals a_approx
     else Inl (LinAlgError ''Array must not contain infs or NaNs'')))))"

text \<open>
  \<^verbatim>\<open>__OptimizeHelper(l_in, m_in, n_in)\<close>. The arrays come from \<^verbatim>\<open>np.empty\<close>, whose contents are
  unspecified; the model fills them with zeros. The residual evaluation overwrites every
  field before the Jacobian or the fit reads one.
\<close>

definition OptimizeHelper :: "nat \<Rightarrow> nat \<Rightarrow> nat \<Rightarrow> opthelper" where
  "OptimizeHelper l_in m_in n_in =
     \<lparr>phi = mat m_in l_in (\<lambda>i j. 0), u_svd = mat m_in l_in (\<lambda>i j. 0), s_inv = replicate l_in 0,
      v_svd = mat l_in l_in (\<lambda>i j. 0), b_matrix = mat l_in n_in (\<lambda>i j. 0),
      rho = mat m_in n_in (\<lambda>i j. 0)\<rparr>"

text \<open>\<^verbatim>\<open>__compute_dmd_varpro\<close>: the call of the solver.\<close>

definition compute_dmd_varpro ::
  "'o backend \<Rightarrow> real list \<Rightarrow> real list \<Rightarrow> complex ndarray \<Rightarrow> opthelper \<Rightarrow> 'o \<Rightarrow>
   error + (optimize_result \<times> opthelper)" where
  "compute_dmd_varpro be alphas_init time data opthelper optargs =
     optimize_least_squares be optargs
       (\<lambda>alphas h. compute_dmd_rho (linalg_svd be) alphas time data h)
       (\<lambda>alphas h. compute_dmd_jac alphas time data h)
       alphas_init opthelper"

text \<open>The comparison \<^verbatim>\<open>compression > 0\<close>.\<close>

fun py_positive :: "pyfloat \<Rightarrow> bool" where
  "py_positive (Finite c) = f_less (F64 0 0) c"
| "py_positive PosInf = True"
| "py_positive NegInf = False"
| "py_positive NaN = False"

text \<open>
  Lines 455 to 467 of \<^verbatim>\<open>compute_varprodmd_any\<close>: the SVD of the data, the rank, the
  projected data, the trapezoidal derivative and the initial eigenvalues with their real
  split. The result is \<^verbatim>\<open>u_r\<close>, \<^verbatim>\<open>data_in\<close>, \<^verbatim>\<open>omegas\<close> and \<^verbatim>\<open>omegas_in\<close>.
\<close>

definition varpro_init ::
  "'o backend \<Rightarrow> complex ndarray \<Rightarrow> real list \<Rightarrow> rank_spec \<Rightarrow> bool \<Rightarrow>
   error + (complex ndarray \<times> complex ndarray \<times> complex list \<times> real list)" where
  "varpro_init be data time rank use_proj =
     ebind (linalg_svd be data) (\<lambda>(u, s, v_r_t).
     ebind (compute_rank (vec s) (nrows data) (ncols data) rank None) (\<lambda>rank'.
     let u_r = cols_upto u rank';
         s_r = take rank' s;
         v_r = ctranspose (rows_upto v_r_t rank') in
     ebind (if use_proj then mul_col (ctranspose v_r) s_r else Inr data) (\<lambda>data_in.
     ebind (add_nd (cols_butlast data_in) (cols_from1 data_in)) (\<lambda>sm.
     let y_in = map_nd (\<lambda>z. z / 2) sm;
         dt_in = map2 (\<lambda>a b. a - b) (tl time) (butlast time) in
     ebind (sub_nd (cols_from1 data_in) (cols_butlast data_in)) (\<lambda>df.
     ebind (div_row df dt_in) (\<lambda>z_in.
     ebind (compute_dmd_ev (linalg_svd be) (linalg_eigvals be) y_in z_in (0 \<notin> set dt_in) rank')
       (\<lambda>omegas.
     ebind (omegas_in omegas) (\<lambda>omegas_in'.
     Inr (u_r, data_in, omegas, omegas_in')))))))))"

text \<open>
  Lines 469 to 480: the selection of the samples. The selection is used only if it has more
  than one index; otherwise, and without compression, all samples are kept. The result is
  \<^verbatim>\<open>data_in\<close>, \<^verbatim>\<open>time_in\<close> and \<^verbatim>\<open>indices\<close>.
\<close>

definition varpro_compress ::
  "'o backend \<Rightarrow> complex ndarray \<Rightarrow> real list \<Rightarrow> pyfloat \<Rightarrow>
   error + (complex ndarray \<times> real list \<times> nat list)" where
  "varpro_compress be data_in time compression =
     (if py_positive compression then
        ebind (select_best_samples_fast (linalg_qr be) data_in compression) (\<lambda>idx.
        let indices = (if 1 < length idx then idx else [0..<ncols data_in]) in
        ebind (index_cols data_in indices) (\<lambda>data_in'.
        ebind (index_vec time indices) (\<lambda>time_in.
        Inr (data_in', time_in, indices))))
      else Inr (data_in, time, [0..<ncols data_in]))"

text \<open>Lines 482 to 485: the warning, which \<^verbatim>\<open>warnings.warn\<close> records without raising.\<close>

definition underdetermined_warning :: "complex ndarray \<Rightarrow> complex list \<Rightarrow> warning list" where
  "underdetermined_warning data_in omegas =
     (if ncols data_in < length omegas
      then [UserWarning (''Attempting to solve underdeterimined system. '' @
                         ''Decrease desired rank or compression!'')]
      else [])"

text \<open>
  Lines 487 to 495: the solver and the modes. A column of \<^verbatim>\<open>xi\<close> that is zero has the norm
  zero and NumPy divides it to NaNs without an exception; the model's quotient there
  carries no meaning.
\<close>

definition varpro_finish ::
  "'o backend \<Rightarrow> 'o \<Rightarrow> bool \<Rightarrow> complex ndarray \<Rightarrow> complex list \<Rightarrow> real list \<Rightarrow>
   complex ndarray \<Rightarrow> real list \<Rightarrow> nat list \<Rightarrow>
   error + (complex ndarray \<times> complex list \<times> real list \<times> nat list \<times> optimize_result)" where
  "varpro_finish be optargs use_proj u_r omegas omegas_in' data_in time_in indices =
     (let opthelper = OptimizeHelper (ncols u_r) (nrows data_in) (ncols data_in) in
      ebind (compute_dmd_varpro be omegas_in' time_in (transpose_nd data_in) opthelper optargs)
        (\<lambda>(opt, opthelper').
      let h = length (opt_x opt) div 2 in
      ebind (set_real omegas (take h (opt_x opt))) (\<lambda>o1.
      ebind (set_imag o1 (drop h (opt_x opt))) (\<lambda>omegas'.
      ebind (if use_proj then matmul u_r (transpose_nd (b_matrix opthelper'))
             else Inr (transpose_nd (b_matrix opthelper'))) (\<lambda>xi.
      let eigenf = norm_axis0 xi in
      ebind (div_row xi eigenf) (\<lambda>modes.
      Inr (modes, omegas', eigenf, indices, opt)))))))"

text \<open>
  \<^verbatim>\<open>compute_varprodmd_any\<close>. The result carries the warnings emitted on the way. The time
  stamps are an array of any shape until the check that it is one-dimensional.
\<close>

definition compute_varprodmd_any ::
  "'o backend \<Rightarrow> complex ndarray \<Rightarrow> real ndarray \<Rightarrow> 'o \<Rightarrow> rank_spec \<Rightarrow> bool \<Rightarrow> pyfloat \<Rightarrow>
   error + ((complex ndarray \<times> complex list \<times> real list \<times> nat list \<times> optimize_result) \<times>
            warning list)" where
  "compute_varprodmd_any be data time optargs rank use_proj compression =
     (if length (shape data) \<noteq> 2 then Inl (ValueError ''data needs to be 2D array'')
      else if length (shape time) \<noteq> 1 then Inl (ValueError ''time needs to be a 1D array'')
      else
        ebind (varpro_init be data (flat time) rank use_proj) (\<lambda>(u_r, data_in, omegas, omegas_in').
        ebind (varpro_compress be data_in (flat time) compression) (\<lambda>(data_in', time_in, indices).
        let ws = underdetermined_warning data_in' omegas in
        ebind (varpro_finish be optargs use_proj u_r omegas omegas_in' data_in' time_in indices)
          (\<lambda>res. Inr (res, ws)))))"

section \<open>The operator: \<^verbatim>\<open>VarProOperator\<close>\<close>

text \<open>
  The attributes that \<^verbatim>\<open>VarProOperator.__init__\<close> sets. \<^verbatim>\<open>compute_operator\<close> assigns to them
  as it goes, so the model returns the state together with the outcome: when the method
  raises, the state is the one reached at the \<^verbatim>\<open>raise\<close>.
\<close>

record 'o varpro_operator =
  op_sorted_eigs :: bool_or_str
  op_svd_rank :: rank_spec
  op_exact :: bool
  op_optargs :: 'o
  op_compression :: pyfloat
  op_modes :: "complex ndarray option"
  op_eigenvalues :: "complex list option"

definition VarProOperator ::
  "rank_spec \<Rightarrow> bool \<Rightarrow> bool_or_str \<Rightarrow> pyfloat \<Rightarrow> 'o \<Rightarrow> 'o varpro_operator" where
  "VarProOperator svd_rank exact sorted_eigs compression optargs =
     \<lparr>op_sorted_eigs = sorted_eigs, op_svd_rank = svd_rank, op_exact = exact,
      op_optargs = optargs, op_compression = compression, op_modes = None,
      op_eigenvalues = None\<rparr>"

definition compute_operator ::
  "'o backend \<Rightarrow> 'o varpro_operator \<Rightarrow> complex ndarray \<Rightarrow> real ndarray \<Rightarrow>
   (error + ((real list \<times> optimize_result \<times> nat list) \<times> warning list)) \<times> 'o varpro_operator" where
  "compute_operator be self X time =
     (case compute_varprodmd_any be X time (op_optargs self) (op_svd_rank self)
             (\<not> op_exact self) (op_compression self) of
        Inl e \<Rightarrow> (Inl e, self)
      | Inr ((modes, eigenvalues, eigenf, indices, opt), ws) \<Rightarrow>
          let self1 = self\<lparr>op_modes := Some modes, op_eigenvalues := Some eigenvalues\<rparr> in
          (case sort_eigs (op_sorted_eigs self1) modes eigenvalues eigenf of
             Inl e \<Rightarrow> (Inl e, self1)
           | Inr (sorted_eigs', modes', eigenvalues', eigenf') \<Rightarrow>
               (Inr ((eigenf', opt, indices), ws),
                self1\<lparr>op_sorted_eigs := sorted_eigs', op_modes := Some modes',
                       op_eigenvalues := Some eigenvalues'\<rparr>)))"


section \<open>Proofs: the error monad and the real split\<close>

lemma ebind_Inr [simp]: "ebind (Inr x) f = f x"
  by (simp add: ebind_def)

lemma ebind_Inl [simp]: "ebind (Inl e) f = Inl e"
  by (simp add: ebind_def)

lemma broadcast_to_same [simp]: "length v = n \<Longrightarrow> broadcast_to n v = Inr v"
  by (simp add: broadcast_to_def)

lemma set_slice_exact:
  "lo \<le> hi \<Longrightarrow> hi \<le> length a \<Longrightarrow> length v = hi - lo \<Longrightarrow>
   set_slice lo hi a v = Inr (take lo a @ v @ drop hi a)"
  by (simp add: set_slice_def Let_def min_def)

lemma set_real_exact:
  "length v = length z \<Longrightarrow> set_real z v = Inr (map2 (\<lambda>x c. Complex x (Im c)) v z)"
  by (simp add: set_real_def)

lemma set_imag_exact:
  "length v = length z \<Longrightarrow> set_imag z v = Inr (map2 (\<lambda>y c. Complex (Re c) y) v z)"
  by (simp add: set_imag_def)

lemma omegas_in_eq: "omegas_in omegas = Inr (map Re omegas @ map Im omegas)"
  by (simp add: omegas_in_def Let_def set_slice_exact)

lemma map2_replicate_left:
  "length xs = n \<Longrightarrow> map2 f xs (replicate n c) = map (\<lambda>x. f x c) xs"
  by (induction xs arbitrary: n) auto

lemma alphas_complex_even:
  assumes "length re = length im"
  shows "alphas_complex (re @ im) = Inr (map2 Complex re im)"
proof -
  have h: "length (re @ im) div 2 = length re"
    using assms by simp
  have "set_real (replicate (length re) 0) re = Inr (map (\<lambda>x. Complex x 0) re)"
    by (simp add: set_real_exact map2_replicate_left)
  moreover have "set_imag (map (\<lambda>x. Complex x 0) re) im = Inr (map2 Complex re im)"
    using assms by (simp add: set_imag_exact zip_map2 zip_commute[of im re] map_zip_map2 split_def)
  ultimately show ?thesis
    unfolding alphas_complex_def Let_def h by simp
qed

lemma map2_Complex_Re_Im: "map2 Complex (map Re xs) (map Im xs) = xs"
  by (induction xs) auto

lemma map_Re_map2_Complex: "length a = length b \<Longrightarrow> map Re (map2 Complex a b) = a"
  by (induction a b rule: list_induct2) auto

lemma map_Im_map2_Complex: "length a = length b \<Longrightarrow> map Im (map2 Complex a b) = b"
  by (induction a b rule: list_induct2) auto

text \<open>
  C3. Packing a complex vector into the real vector handed to the solver and unpacking
  it as the residual evaluation does gives the vector back, with no error; and a real
  vector of even length \<open>2r\<close>, unpacked and packed again, is unchanged.
\<close>

theorem split_unsplit_roundtrip:
  "ebind (omegas_in Omega) alphas_complex = Inr Omega \<and>
   (length v = 2 * r \<longrightarrow> ebind (alphas_complex v) omegas_in = Inr v)"
proof
  show "ebind (omegas_in Omega) alphas_complex = Inr Omega"
    by (simp add: omegas_in_eq alphas_complex_even map2_Complex_Re_Im)
next
  show "length v = 2 * r \<longrightarrow> ebind (alphas_complex v) omegas_in = Inr v"
  proof
    assume len: "length v = 2 * r"
    have v: "v = take r v @ drop r v" by simp
    have eq: "length (take r v) = length (drop r v)" using len by simp
    have "alphas_complex (take r v @ drop r v) = Inr (map2 Complex (take r v) (drop r v))"
      using eq by (rule alphas_complex_even)
    then have "ebind (alphas_complex v) omegas_in = omegas_in (map2 Complex (take r v) (drop r v))"
      by simp
    also have "\<dots> = Inr (take r v @ drop r v)"
      using eq by (simp only: omegas_in_eq map_Re_map2_Complex map_Im_map2_Complex)
    finally show "ebind (alphas_complex v) omegas_in = Inr v" by simp
  qed
qed

theorem split_unsplit_roundtrip_witness:
  "length [1, 2, 3, 4 :: real] = 2 * 2 \<and>
   ebind (omegas_in [Complex 1 2, Complex 3 4]) alphas_complex = Inr [Complex 1 2, Complex 3 4] \<and>
   ebind (alphas_complex [1, 2, 3, 4]) omegas_in = Inr [1, 2, 3, 4]"
  using split_unsplit_roundtrip [of "[Complex 1 2, Complex 3 4]" "[1, 2, 3, 4]" 2] by simp

section \<open>Proofs: rank estimation\<close>

lemma last_filter_upt: "filter P [0..<n] \<noteq> [] \<Longrightarrow> last (filter P [0..<n]) < n"
proof -
  assume "filter P [0..<n] \<noteq> []"
  then have "last (filter P [0..<n]) \<in> set (filter P [0..<n])" by (rule last_in_set)
  then show ?thesis by simp
qed

lemma svht_vec_cases:
  "(svht (vec xs) rows cols sigma = Inl ZeroDivisionError \<and> rows = 0 \<and> cols = 0) \<or>
   (\<exists>k. svht (vec xs) rows cols sigma = Inr k \<and> (xs \<noteq> [] \<longrightarrow> 1 \<le> k \<and> k \<le> length xs))"
  by (auto simp: svht_def vec_def Let_def last_filter_upt Suc_le_eq split: option.splits)

text \<open>
  C7. For a non-empty vector of singular values, whenever \<^verbatim>\<open>__compute_rank\<close> returns,
  the rank lies between 1 and the number of singular values; it raises only for a negative
  specifier (and, with the sentinel 0, for a matrix of no rows and no columns, where the
  aspect ratio divides by zero). An integer specifier \<open>r \<ge> 1\<close> gives \<open>min r (len \<sigma>)\<close>,
  and a negative specifier raises the invalid-argument error.
\<close>

theorem compute_rank_range:
  assumes "sigma_x \<noteq> []"
  shows "(case compute_rank (vec sigma_x) rows cols rank sigma of
            Inr k \<Rightarrow> 1 \<le> k \<and> k \<le> length sigma_x
          | Inl e \<Rightarrow> rank_value rank < 0 \<or> (rank_value rank = 0 \<and> rows = 0 \<and> cols = 0)) \<and>
         (1 \<le> r \<longrightarrow>
            compute_rank (vec sigma_x) rows cols (RInt r) sigma = Inr (min (nat r) (length sigma_x))) \<and>
         (rank_value rank < 0 \<longrightarrow>
            compute_rank (vec sigma_x) rows cols rank sigma = Inl (ValueError ''Invalid rank specified''))"
proof (intro conjI impI)
  have len: "Suc 0 \<le> length sigma_x" using assms by (simp add: Suc_le_eq)
  have sz: "size_nd (vec sigma_x) = length sigma_x" by (simp add: size_nd_def vec_def)
  consider (energy) "0 < rank_value rank" "rank_value rank < 1"
    | (auto) "rank_value rank = 0"
    | (fixed) "1 \<le> rank_value rank"
    | (neg) "rank_value rank < 0"
    by linarith
  then show "case compute_rank (vec sigma_x) rows cols rank sigma of
            Inr k \<Rightarrow> 1 \<le> k \<and> k \<le> length sigma_x
          | Inl e \<Rightarrow> rank_value rank < 0 \<or> (rank_value rank = 0 \<and> rows = 0 \<and> cols = 0)"
  proof cases
    case energy
    then show ?thesis using len by (simp add: compute_rank_def Let_def sz)
  next
    case auto
    from svht_vec_cases [of sigma_x rows cols sigma] show ?thesis
    proof
      assume z: "svht (vec sigma_x) rows cols sigma = Inl ZeroDivisionError \<and> rows = 0 \<and> cols = 0"
      then have s: "svht (vec sigma_x) rows cols sigma = Inl ZeroDivisionError"
        and rc: "rows = 0" "cols = 0" by blast+
      have cr: "compute_rank (vec sigma_x) rows cols rank sigma = Inl ZeroDivisionError"
        using auto by (simp add: compute_rank_def Let_def s)
      show ?thesis unfolding cr using auto rc by simp
    next
      assume "\<exists>k. svht (vec sigma_x) rows cols sigma = Inr k \<and>
                (sigma_x \<noteq> [] \<longrightarrow> 1 \<le> k \<and> k \<le> length sigma_x)"
      then obtain k where k: "svht (vec sigma_x) rows cols sigma = Inr k" "1 \<le> k" "k \<le> length sigma_x"
        using assms by blast
      then show ?thesis using auto by (simp add: compute_rank_def Let_def sz)
    qed
  next
    case fixed
    then have "1 \<le> rank_int rank" by (cases rank) (auto simp: le_floor_iff)
    then show ?thesis using fixed len by (simp add: compute_rank_def Let_def sz)
  next
    case neg
    then show ?thesis by (simp add: compute_rank_def Let_def)
  qed
next
  assume "1 \<le> r"
  then show "compute_rank (vec sigma_x) rows cols (RInt r) sigma = Inr (min (nat r) (length sigma_x))"
    by (simp add: compute_rank_def Let_def size_nd_def vec_def)
next
  assume "rank_value rank < 0"
  then show "compute_rank (vec sigma_x) rows cols rank sigma = Inl (ValueError ''Invalid rank specified'')"
    by (simp add: compute_rank_def Let_def)
qed

theorem compute_rank_range_witness:
  "[3, 2, 1 :: real] \<noteq> [] \<and>
   compute_rank (vec [3, 2, 1]) 3 3 (RInt 2) None = Inr 2 \<and>
   compute_rank (vec [3, 2, 1]) 3 3 (RInt (- 1)) None = Inl (ValueError ''Invalid rank specified'')"
  using compute_rank_range [where sigma_x = "[3, 2, 1]" and rows = 3 and cols = 3
      and rank = "RInt (- 1)" and sigma = None and r = 2]
  by simp

section \<open>Proofs: double-precision arithmetic\<close>

lemma round_even_le:
  assumes "0 \<le> s" "s \<le> N * 2 ^ k"
  shows "round_even s k \<le> N"
proof -
  have p: "(0::int) < 2 ^ k" by simp
  let ?q = "s div 2 ^ k" and ?r = "s mod 2 ^ k"
  have q: "?q \<le> N" using zdiv_mono1 [OF assms(2) p] by simp
  have r: "?r < 2 ^ k" "0 \<le> ?r" using p by simp_all
  show ?thesis
  proof (cases "?q = N")
    case True
    have "s = N * 2 ^ k + ?r" using True div_mult_mod_eq [of s "2 ^ k"] by simp
    then have "?r \<le> 0" using assms(2) by linarith
    then have "?r = 0" using r by simp
    then show ?thesis using True by (simp add: round_even_def Let_def)
  next
    case False
    then have "?q + 1 \<le> N" using q by simp
    then show ?thesis by (auto simp: round_even_def Let_def)
  qed
qed

lemma round_even_nonneg: "0 \<le> s \<Longrightarrow> 0 \<le> round_even s k"
  by (auto simp: round_even_def Let_def pos_imp_zdiv_nonneg_iff intro: add_nonneg_nonneg)

lemma powi_pos [simp]: "(0::real) < 2 powi e"
  by (simp add: power_int_def)

lemma fval_nonneg_iff: "0 \<le> fval x \<longleftrightarrow> 0 \<le> sig x"
proof -
  have "0 < (2::real) powi expo x" by (rule powi_pos)
  then have "0 \<le> real_of_int (sig x) * 2 powi expo x \<longleftrightarrow> 0 \<le> real_of_int (sig x)"
    by (simp add: zero_le_mult_iff not_le [symmetric] less_imp_le)
  then show ?thesis by (simp add: fval_def)
qed

lemma fval_align:
  assumes "e \<le> expo x"
  shows "fval x = real_of_int (sig x * 2 ^ nat (expo x - e)) * 2 powi e"
proof -
  have a: "(2::real) powi expo x = 2 powi (expo x - e) * 2 powi e"
    using power_int_add [of "2::real" "expo x - e" e] by simp
  have b: "(2::real) powi (expo x - e) = 2 ^ nat (expo x - e)"
    using assms by (simp add: power_int_def)
  show ?thesis by (simp add: fval_def a b)
qed

lemma f_less_iff: "f_less x y \<longleftrightarrow> fval x < fval y"
proof -
  let ?e = "min (expo x) (expo y)"
  have "fval x = real_of_int (sig x * 2 ^ nat (expo x - ?e)) * 2 powi ?e"
    by (rule fval_align) simp
  moreover have "fval y = real_of_int (sig y * 2 ^ nat (expo y - ?e)) * 2 powi ?e"
    by (rule fval_align) simp
  ultimately have "fval x < fval y \<longleftrightarrow>
      real_of_int (sig x * 2 ^ nat (expo x - ?e)) < real_of_int (sig y * 2 ^ nat (expo y - ?e))"
    by (simp only: mult_less_cancel_right_pos [OF powi_pos])
  then show ?thesis unfolding f_less_def Let_def by (simp only: of_int_less_iff)
qed

lemma fval_sub_exact:
  "fval (F64 (sig x * 2 ^ nat (expo x - min (expo x) (expo y)) -
              sig y * 2 ^ nat (expo y - min (expo x) (expo y))) (min (expo x) (expo y))) =
   fval x - fval y"
proof -
  let ?e = "min (expo x) (expo y)"
  have x: "fval x = real_of_int (sig x * 2 ^ nat (expo x - ?e)) * 2 powi ?e"
    by (rule fval_align) simp
  have y: "fval y = real_of_int (sig y * 2 ^ nat (expo y - ?e)) * 2 powi ?e"
    by (rule fval_align) simp
  show ?thesis unfolding x y by (simp add: fval_def algebra_simps)
qed

lemma fl_le:
  assumes "0 \<le> sig x" "fval x \<le> real_of_int b" "b < 2 ^ 53"
  shows "0 \<le> sig (fl x) \<and> fval (fl x) \<le> real_of_int b"
proof (cases "nat (bitlen \<bar>sig x\<bar>) \<le> 53")
  case True
  then show ?thesis using assms by (simp add: fl_def Let_def)
next
  case False
  define s where "s = sig x"
  define e where "e = expo x"
  define k where "k = nat (bitlen \<bar>sig x\<bar>) - 53"
  have abs: "\<bar>sig x\<bar> = s" using assms(1) by (simp add: s_def)
  have k: "0 < k" "nat (bitlen s) = 53 + k" using False abs by (simp_all add: k_def)
  have spos: "0 < s"
  proof (rule ccontr)
    assume "\<not> 0 < s"
    then have "s = 0" using assms(1) by (simp add: s_def)
    then show False using k(2) by simp
  qed
  have "nat (bitlen s - 1) = 52 + k" using k(2) by simp
  then have lo: "2 ^ (52 + k) \<le> s" using bitlen_bounds [OF spos] by simp
  have sg: "sgn (sig x) = 1" using spos by (simp add: s_def)
  have flx: "fl x = F64 (round_even s k) (e + int k)"
    using False by (simp add: fl_def Let_def k_def e_def abs sg)
  have v: "real_of_int s * 2 powi e \<le> real_of_int b"
    using assms(2) by (simp add: fval_def s_def e_def)
  have ek: "e + int k \<le> 0"
  proof (rule ccontr)
    assume "\<not> e + int k \<le> 0"
    then have "53 \<le> int (52 + k) + e" by simp
    then have "(2::real) powi 53 \<le> 2 powi (int (52 + k) + e)"
      by (intro power_int_increasing) simp_all
    also have "\<dots> = 2 powi int (52 + k) * 2 powi e"
      by (rule power_int_add) simp
    also have "\<dots> = 2 ^ (52 + k) * 2 powi e"
      by (simp only: power_int_of_nat)
    also have "\<dots> \<le> real_of_int s * 2 powi e"
    proof -
      have "real_of_int (2 ^ (52 + k)) \<le> real_of_int s" using lo by (simp only: of_int_le_iff)
      then show ?thesis by simp
    qed
    also have "\<dots> \<le> real_of_int b" by (rule v)
    finally have "(2::real) ^ 53 \<le> real_of_int b" by simp
    then have "(2::int) ^ 53 \<le> b" by (metis of_int_le_iff of_int_numeral of_int_power)
    then show False using assms(3) by simp
  qed
  define j where "j = nat (- (e + int k))"
  have e_eq: "e = - int (j + k)" using ek by (simp add: j_def)
  have "(2::real) powi e = 1 / 2 ^ (j + k)"
    unfolding e_eq by (simp only: power_int_minus power_int_of_nat inverse_eq_divide)
  then have "real_of_int s / 2 ^ (j + k) \<le> real_of_int b" using v by simp
  then have "real_of_int s \<le> real_of_int b * 2 ^ (j + k)" by (simp add: pos_divide_le_eq)
  then have "real_of_int s \<le> real_of_int (b * 2 ^ j * 2 ^ k)" by (simp add: power_add)
  then have "s \<le> b * 2 ^ j * 2 ^ k" by (simp only: of_int_le_iff)
  then have r: "round_even s k \<le> b * 2 ^ j" using spos by (intro round_even_le) simp_all
  have ej: "e + int k = - int j" using ek by (simp add: j_def)
  have "fval (fl x) = real_of_int (round_even s k) / 2 ^ j"
    unfolding flx by (simp add: fval_def ej power_int_minus field_simps)
  also have "\<dots> \<le> real_of_int b"
  proof -
    have "real_of_int (round_even s k) \<le> real_of_int (b * 2 ^ j)" using r by (simp only: of_int_le_iff)
    then show ?thesis by (simp add: pos_divide_le_eq)
  qed
  finally have "fval (fl x) \<le> real_of_int b" .
  moreover have "0 \<le> sig (fl x)" unfolding flx using round_even_nonneg [of s k] spos by simp
  ultimately show ?thesis by simp
qed

lemma fl_sig_nonneg: "0 \<le> sig x \<Longrightarrow> 0 \<le> sig (fl x)"
  by (simp add: fl_def Let_def sgn_if round_even_nonneg)

lemma f_trunc_le:
  assumes "0 \<le> sig x" "fval x \<le> real_of_int b"
  shows "f_trunc x \<le> b"
proof (cases "0 \<le> expo x")
  case True
  have "fval x = real_of_int (sig x * 2 ^ nat (expo x))"
    using True by (simp add: fval_def power_int_def)
  then have "sig x * 2 ^ nat (expo x) \<le> b" using assms(2) by (simp only: of_int_le_iff)
  then show ?thesis using True by (simp add: f_trunc_def)
next
  case False
  define n where "n = nat (- expo x)"
  have e: "expo x = - int n" using False by (simp add: n_def)
  have "fval x = real_of_int (sig x) / 2 ^ n"
    by (simp add: fval_def e power_int_minus field_simps)
  then have "real_of_int (sig x) \<le> real_of_int b * 2 ^ n"
    using assms(2) by (simp add: pos_divide_le_eq)
  then have "real_of_int (sig x) \<le> real_of_int (b * 2 ^ n)" by simp
  then have "sig x \<le> b * 2 ^ n" by (simp only: of_int_le_iff)
  then have "sig x div 2 ^ n \<le> b" using zdiv_mono1 [of "sig x" "b * 2 ^ n" "2 ^ n"] by simp
  moreover have "sgn (sig x) * (\<bar>sig x\<bar> div 2 ^ n) = sig x div 2 ^ n"
    using assms(1) by (cases "sig x = 0") (simp_all add: sgn_if)
  ultimately show ?thesis using False by (simp add: f_trunc_def n_def)
qed

lemma f_trunc_nonneg: "0 \<le> sig x \<Longrightarrow> 0 \<le> f_trunc x"
  by (simp add: f_trunc_def sgn_if pos_imp_zdiv_nonneg_iff)

lemma f_of_int_small: "0 \<le> i \<Longrightarrow> i < 2 ^ 53 \<Longrightarrow> f_of_int i = F64 i 0"
  using bitlen_le_iff_power [of i 53] by (simp add: f_of_int_def fl_def Let_def nat_le_iff)

lemma n_samples_le:
  assumes "f_less (F64 0 0) c" "f_less c (F64 1 0)" "m < 2 ^ 53"
  shows "nat (f_trunc (f_mul (f_of_int (int m)) (f_sub (F64 1 0) c))) \<le> m"
proof -
  have c: "0 < fval c" "fval c < 1" using assms(1,2) by (simp_all add: f_less_iff fval_def)
  let ?e = "min (expo (F64 1 0)) (expo c)"
  let ?d = "F64 (sig (F64 1 0) * 2 ^ nat (expo (F64 1 0) - ?e) - sig c * 2 ^ nat (expo c - ?e)) ?e"
  have "fval ?d = fval (F64 1 0) - fval c" by (rule fval_sub_exact)
  then have dv: "fval ?d = 1 - fval c" by (simp add: fval_def)
  have "0 \<le> fval ?d" using dv c by simp
  then have d0: "0 \<le> sig ?d" by (simp only: fval_nonneg_iff)
  have d1: "fval ?d \<le> real_of_int 1" using dv c by simp
  have sub: "f_sub (F64 1 0) c = fl ?d" by (simp only: f_sub_def Let_def)
  have x: "0 \<le> sig (fl ?d) \<and> fval (fl ?d) \<le> real_of_int 1"
    by (rule fl_le [OF d0 d1]) simp
  let ?x = "fl ?d"
  have mi: "int m < 2 ^ 53" using assms(3) by (metis of_nat_less_iff of_nat_numeral of_nat_power)
  have fm: "f_of_int (int m) = F64 (int m) 0" using mi by (simp add: f_of_int_small)
  let ?p = "F64 (int m * sig ?x) (expo ?x)"
  have mul: "f_mul (f_of_int (int m)) (f_sub (F64 1 0) c) = fl ?p"
    by (simp add: f_mul_def fm sub)
  have p0: "0 \<le> sig ?p" using x by simp
  have "fval ?p = real m * fval ?x" by (simp add: fval_def)
  also have "\<dots> \<le> real m * 1" using x by (intro mult_left_mono) simp_all
  finally have p1: "fval ?p \<le> real_of_int (int m)" by simp
  have y: "0 \<le> sig (fl ?p) \<and> fval (fl ?p) \<le> real_of_int (int m)"
    by (rule fl_le [OF p0 p1 mi])
  have "f_trunc (fl ?p) \<le> int m" using y by (intro f_trunc_le) simp_all
  then have "nat (f_trunc (fl ?p)) \<le> m" by (simp only: nat_le_iff)
  then show ?thesis by (simp only: mul)
qed

section \<open>Proofs: sample selection\<close>

lemma select_best_samples_fast_prefix:
  assumes "shape data = [n, m]" "m < 2 ^ 53" "0 < fval c" "fval c < 1"
    and "qr_pivoting data = Inr pcolumn" "distinct pcolumn" "set pcolumn = {0..<m}"
  shows "\<exists>idx. select_best_samples_fast qr_pivoting data (Finite c) = Inr idx \<and>
    int (length idx) = f_trunc (f_mul (f_of_int (int m)) (f_sub (F64 1 0) c)) \<and>
    distinct idx \<and> set idx \<subseteq> {0..<m}"
proof -
  let ?t = "f_trunc (f_mul (f_of_int (int m)) (f_sub (F64 1 0) c))"
  have g: "f_less (F64 0 0) c" "f_less c (F64 1 0)"
    using assms(3,4) by (simp_all add: f_less_iff fval_def)
  have len: "length pcolumn = m" using assms(6,7) distinct_card [of pcolumn] by simp
  have k: "nat ?t \<le> m" by (rule n_samples_le [OF g assms(2)])
  have "0 \<le> sig (f_mul (f_of_int (int m)) (f_sub (F64 1 0) c))"
  proof -
    have c: "0 \<le> 1 - fval c" using assms(4) by simp
    have "fval (F64 (sig (F64 1 0) * 2 ^ nat (expo (F64 1 0) - min (expo (F64 1 0)) (expo c)) -
        sig c * 2 ^ nat (expo c - min (expo (F64 1 0)) (expo c))) (min (expo (F64 1 0)) (expo c))) =
      fval (F64 1 0) - fval c" by (rule fval_sub_exact)
    then have "0 \<le> fval (F64 (sig (F64 1 0) * 2 ^ nat (expo (F64 1 0) - min (expo (F64 1 0)) (expo c)) -
        sig c * 2 ^ nat (expo c - min (expo (F64 1 0)) (expo c))) (min (expo (F64 1 0)) (expo c)))"
      using c by (simp add: fval_def)
    then have "0 \<le> sig (f_sub (F64 1 0) c)"
      unfolding f_sub_def Let_def by (simp only: fval_nonneg_iff fl_sig_nonneg)
    moreover have "0 \<le> sig (f_of_int (int m))" by (simp add: f_of_int_def fl_sig_nonneg)
    ultimately show ?thesis by (simp add: f_mul_def fl_sig_nonneg)
  qed
  then have t0: "0 \<le> ?t" by (rule f_trunc_nonneg)
  have sel: "select_best_samples_fast qr_pivoting data (Finite c) = Inr (take (nat ?t) pcolumn)"
    using assms(1,5) g by (simp add: select_best_samples_fast_def Let_def)
  have "int (length (take (nat ?t) pcolumn)) = ?t" using k len t0 by simp
  moreover have "distinct (take (nat ?t) pcolumn)" using assms(6) by simp
  moreover have "set (take (nat ?t) pcolumn) \<subseteq> {0..<m}"
    using assms(7) set_take_subset [of "nat ?t" pcolumn] by blast
  ultimately show ?thesis using sel by blast
qed

lemma select_best_samples_fast_not_2d:
  "length (shape data) \<noteq> 2 \<Longrightarrow>
   select_best_samples_fast qr_pivoting data compr = Inl (ValueError ''Expected 2D array!'')"
  by (simp add: select_best_samples_fast_def)

lemma select_best_samples_fast_outside:
  assumes "length (shape data) = 2" "\<And>c. compr = Finite c \<Longrightarrow> \<not> (0 < fval c \<and> fval c < 1)"
  shows "select_best_samples_fast qr_pivoting data compr =
    Inl (ValueError ''Compression must be in (0, 1)]'')"
proof (cases compr)
  case (Finite c)
  then have "\<not> (f_less (F64 0 0) c \<and> f_less c (F64 1 0))"
    using assms(2) [of c] by (simp add: f_less_iff fval_def)
  then show ?thesis using assms(1) Finite by (simp add: select_best_samples_fast_def)
qed (simp_all add: select_best_samples_fast_def assms(1))

lemma n_samples_third: "f_trunc (f_mul (f_of_int 3) (f_sub (F64 1 0) (F64 3002399751580331 (- 53)))) = 2"
  by code_simp

lemma n_samples_fifth: "f_trunc (f_mul (f_of_int 5) (f_sub (F64 1 0) (F64 3602879701896397 (- 54)))) = 4"
  by code_simp

lemma n_samples_default: "f_trunc (f_mul (f_of_int 10) (f_sub (F64 1 0) (F64 8106479329266893 (- 53)))) = 0"
  by code_simp

lemma f_less_third: "f_less (F64 0 0) (F64 3002399751580331 (- 53)) \<and> f_less (F64 3002399751580331 (- 53)) (F64 1 0)"
  by code_simp

lemma f_less_fifth: "f_less (F64 0 0) (F64 3602879701896397 (- 54)) \<and> f_less (F64 3602879701896397 (- 54)) (F64 1 0)"
  by code_simp

lemma f_less_default: "f_less (F64 0 0) (F64 8106479329266893 (- 53)) \<and> f_less (F64 8106479329266893 (- 53)) (F64 1 0)"
  by code_simp

text \<open>
  C4. The number of indices is Python's \<^verbatim>\<open>int(m * (1.0 - c))\<close>, a product of binary64 numbers
  rounded twice, and not \<open>\<lfloor>(1 - c) m\<rfloor>\<close>. For \<open>c = 0.33333333333333337\<close>, which is the
  binary64 number \<open>3002399751580331 \<sqdot> 2\<^sup>-\<^sup>5\<^sup>3\<close>, and a matrix of three columns the function
  returns two indices, where \<open>\<lfloor>(1 - c) \<sqdot> 3\<rfloor> = 1\<close> both for the binary64 number and for the
  decimal that names it. For \<open>c = 0.2\<close>, the binary64 number \<open>3602879701896397 \<sqdot> 2\<^sup>-\<^sup>5\<^sup>4\<close>,
  and five columns it returns four indices, where \<open>\<lfloor>(1 - c) \<sqdot> 5\<rfloor> = 3\<close> for that number. For
  the default \<open>c = 0.9\<close>, the binary64 number \<open>8106479329266893 \<sqdot> 2\<^sup>-\<^sup>5\<^sup>3\<close>, and ten columns it
  returns no index, where \<open>\<lfloor>(1 - 9/10) \<sqdot> 10\<rfloor> = 1\<close>. The pivot vector is the identity
  permutation in all three runs.
\<close>

theorem select_best_samples_fast_rounded_count:
  "select_best_samples_fast (\<lambda>d. Inr [0, 1, 2]) \<lparr>shape = [2, 3], flat = replicate 6 1\<rparr>
      (Finite (F64 3002399751580331 (- 53))) = Inr [0, 1] \<and>
   nat \<lfloor>(1 - fval (F64 3002399751580331 (- 53))) * real 3\<rfloor> = 1 \<and>
   nat \<lfloor>(1 - 33333333333333337 / 10 ^ 17) * real 3\<rfloor> = 1 \<and>
   select_best_samples_fast (\<lambda>d. Inr [0, 1, 2, 3, 4]) \<lparr>shape = [2, 5], flat = replicate 10 1\<rparr>
      (Finite (F64 3602879701896397 (- 54))) = Inr [0, 1, 2, 3] \<and>
   nat \<lfloor>(1 - fval (F64 3602879701896397 (- 54))) * real 5\<rfloor> = 3 \<and>
   select_best_samples_fast (\<lambda>d. Inr [0, 1, 2, 3, 4, 5, 6, 7, 8, 9])
      \<lparr>shape = [2, 10], flat = replicate 20 1\<rparr> (Finite (F64 8106479329266893 (- 53))) = Inr [] \<and>
   nat \<lfloor>(1 - 9 / 10) * real 10\<rfloor> = 1"
proof -
  have a: "select_best_samples_fast (\<lambda>d. Inr [0, 1, 2]) \<lparr>shape = [2, 3], flat = replicate 6 1\<rparr>
      (Finite (F64 3002399751580331 (- 53))) = Inr [0, 1]"
    using f_less_third by (simp add: select_best_samples_fast_def n_samples_third)
  have b: "select_best_samples_fast (\<lambda>d. Inr [0, 1, 2, 3, 4]) \<lparr>shape = [2, 5], flat = replicate 10 1\<rparr>
      (Finite (F64 3602879701896397 (- 54))) = Inr [0, 1, 2, 3]"
    using f_less_fifth by (simp add: select_best_samples_fast_def n_samples_fifth)
  have c: "select_best_samples_fast (\<lambda>d. Inr [0, 1, 2, 3, 4, 5, 6, 7, 8, 9])
      \<lparr>shape = [2, 10], flat = replicate 20 1\<rparr> (Finite (F64 8106479329266893 (- 53))) = Inr []"
    using f_less_default by (simp add: select_best_samples_fast_def n_samples_default)
  have d: "nat \<lfloor>(1 - fval (F64 3002399751580331 (- 53))) * real 3\<rfloor> = 1"
    by (simp add: fval_def power_int_minus)
  have e: "nat \<lfloor>(1 - 33333333333333337 / 10 ^ 17) * real 3\<rfloor> = 1" by simp
  have f: "nat \<lfloor>(1 - fval (F64 3602879701896397 (- 54))) * real 5\<rfloor> = 3"
    by (simp add: fval_def power_int_minus)
  have g: "nat \<lfloor>(1 - 9 / 10) * real 10\<rfloor> = 1" by simp
  show ?thesis using a b c d e f g by (simp only: simp_thms)
qed

lemma n_samples_tiny: "f_trunc (f_mul (f_of_int 1) (f_sub (F64 1 0) (F64 1 (- 60)))) = 1"
  by code_simp

lemma f_less_tiny: "f_less (F64 0 0) (F64 1 (- 60)) \<and> f_less (F64 1 (- 60)) (F64 1 0)"
  by code_simp

text \<open>
  C10. For a matrix with one column and the compression \<open>c = 2\<^sup>-\<^sup>6\<^sup>0\<close>, which lies in \<open>(0, 1)\<close>
  and has \<open>\<lfloor>(1 - c) \<sqdot> 1\<rfloor> = 0\<close>, the difference \<^verbatim>\<open>1.0 - c\<close> rounds to \<open>1.0\<close>, the sample count is
  \<open>1\<close> and \<^verbatim>\<open>select_best_samples_fast\<close> returns the one pivot index, not an empty array.
\<close>

theorem select_best_samples_fast_single_column:
  "0 < fval (F64 1 (- 60)) \<and> fval (F64 1 (- 60)) < 1 \<and>
   nat \<lfloor>(1 - fval (F64 1 (- 60))) * real 1\<rfloor> = 0 \<and>
   select_best_samples_fast (\<lambda>d. Inr [0]) \<lparr>shape = [2, 1], flat = [1, 1]\<rparr> (Finite (F64 1 (- 60))) =
     Inr [0]"
proof -
  have a: "select_best_samples_fast (\<lambda>d. Inr [0]) \<lparr>shape = [2, 1], flat = [1, 1]\<rparr>
      (Finite (F64 1 (- 60))) = Inr [0]"
    using f_less_tiny by (simp add: select_best_samples_fast_def n_samples_tiny)
  have b: "0 < fval (F64 1 (- 60)) \<and> fval (F64 1 (- 60)) < 1"
    by (simp add: fval_def power_int_minus)
  have c: "nat \<lfloor>(1 - fval (F64 1 (- 60))) * real 1\<rfloor> = 0"
    by (simp add: fval_def power_int_minus)
  show ?thesis using a b c by (simp only: simp_thms)
qed

section \<open>Proofs: sorting the eigenvalues\<close>

lemma cmod_m8_6: "cmod (Complex (- 8) 6) = 10"
  by (simp add: cmod_def real_sqrt_unique)

lemma cmod_4_3: "cmod (Complex 4 3) = 5"
  by (simp add: cmod_def real_sqrt_unique)

lemma argsort_two_ascending: "(a::real) < b \<Longrightarrow> argsort [a, b] = [0, 1]"
  by (simp add: argsort_def numeral_2_eq_2)

lemma eigs_abs_auto_example:
  "eigs_abs ''auto'' [Complex (- 8) 6, Complex 4 3] = Inr [- 8, 4]"
  by (simp add: eigs_abs_def var_def argmax_def Let_def cmod_m8_6 cmod_4_3)

text \<open>
  C1. With \<^verbatim>\<open>sorted_eigs=True\<close> and the fitted eigenvalues \<open>-8+6i\<close> and \<open>4+3i\<close>, the
  candidates compared by variance are the signed real parts, the signed imaginary parts
  and the magnitudes; the signed real parts win (variance 36 against 2.25 and 6.25) and
  are the sort key. The result is \<open>4+3i\<close> before \<open>-8+6i\<close>: ascending in magnitude, in
  \<open>|Re|\<close> and in \<open>|Im|\<close>, where the docstring and the claim promise a descending order by
  one of these three. Modes and amplitudes follow the same permutation \<open>[1, 0]\<close>.
\<close>

theorem sort_eigs_auto_signed_key:
  "sort_eigs (PBool True) modes [Complex (- 8) 6, Complex 4 3] [5, 7] =
     Inr (PStr ''auto'', take_cols modes [1, 0], [Complex 4 3, Complex (- 8) 6], [7, 5]) \<and>
   map cmod [Complex 4 3, Complex (- 8) 6] = [5, 10] \<and>
   map (\<lambda>z. \<bar>Re z\<bar>) [Complex 4 3, Complex (- 8) 6] = [4, 8] \<and>
   map (\<lambda>z. \<bar>Im z\<bar>) [Complex 4 3, Complex (- 8) 6] = [3, 6]"
proof -
  have "argsort [- 8, 4 :: real] = [0, 1]" by (rule argsort_two_ascending) simp
  then have "sort_eigs (PBool True) modes [Complex (- 8) 6, Complex 4 3] [5, 7] =
     Inr (PStr ''auto'', take_cols modes [1, 0], [Complex 4 3, Complex (- 8) 6], [7, 5])"
    by (simp add: sort_eigs_def eigs_abs_auto_example)
  then show ?thesis by (simp add: cmod_m8_6 cmod_4_3)
qed

section \<open>Proofs: arrays\<close>

lemma length_concat_rows:
  "length (concat (map (\<lambda>i. map (f i) [0..<m]) [0..<n])) = n * m"
  by (induction n) auto

lemma nth_concat_rows:
  "i < n \<Longrightarrow> j < m \<Longrightarrow> concat (map (\<lambda>i. map (f i) [0..<m]) [0..<n]) ! (i * m + j) = f i j"
proof (induction n)
  case 0
  then show ?case by simp
next
  case (Suc n)
  show ?case
  proof (cases "i < n")
    case True
    have "Suc i * m \<le> n * m" using True by (intro mult_le_mono1) simp
    then have "i * m + j < n * m" using Suc.prems(2) by simp
    then show ?thesis using Suc.IH [OF True Suc.prems(2)]
      by (simp add: nth_append length_concat_rows)
  next
    case False
    then have "i = n" using Suc.prems(1) by simp
    then show ?thesis using Suc.prems(2)
      by (simp add: nth_append length_concat_rows)
  qed
qed

lemma shape_mat [simp]: "shape (mat n m f) = [n, m]"
  by (simp add: mat_def)

lemma nrows_mat [simp]: "nrows (mat n m f) = n"
  by (simp add: nrows_def)

lemma ncols_mat [simp]: "ncols (mat n m f) = m"
  by (simp add: ncols_def)

lemma length_flat_mat [simp]: "length (flat (mat n m f)) = n * m"
  by (simp add: mat_def length_concat_rows)

lemma at2_mat [simp]: "i < n \<Longrightarrow> j < m \<Longrightarrow> at2 (mat n m f) i j = f i j"
  by (simp add: at2_def) (simp add: mat_def nth_concat_rows)

lemma shape2_rows: "shape a = [n, m] \<Longrightarrow> nrows a = n"
  by (simp add: nrows_def)

lemma shape2_cols: "shape a = [n, m] \<Longrightarrow> ncols a = m"
  by (simp add: ncols_def)

lemma bdim_same [simp]: "bdim a a = Some a"
  by (simp add: bdim_def)

lemma bdim_one [simp]: "bdim a 1 = Some a"
  by (simp add: bdim_def)

lemma bdim_Suc_0 [simp]: "bdim a (Suc 0) = Some a"
  by (simp add: bdim_def)

lemma matmul_shape:
  "ncols a = nrows b \<Longrightarrow> \<exists>c. matmul a b = Inr c \<and> shape c = [nrows a, ncols b]"
  by (simp add: matmul_def)

lemma multi_dot3_shape:
  assumes "ncols a = nrows b" "ncols b = nrows c"
  shows "\<exists>d. multi_dot3 a b c = Inr d \<and> shape d = [nrows a, ncols c]"
proof -
  obtain ab where ab: "matmul a b = Inr ab" "shape ab = [nrows a, ncols b]"
    using matmul_shape [OF assms(1)] by blast
  have "ncols ab = nrows c" using ab(2) assms(2) by (simp add: shape2_cols)
  then obtain d where "matmul ab c = Inr d" "shape d = [nrows ab, ncols c]"
    using matmul_shape by blast
  then show ?thesis using ab by (simp add: multi_dot3_def shape2_rows)
qed

lemma bcast2_shape:
  "nrows a = nrows b \<Longrightarrow> ncols a = ncols b \<Longrightarrow>
   \<exists>c. bcast2 f a b = Inr c \<and> c = mat (nrows a) (ncols a)
     (\<lambda>i j. f (at2 a (if nrows a = 1 then 0 else i) (if ncols a = 1 then 0 else j))
              (at2 b (if nrows b = 1 then 0 else i) (if ncols b = 1 then 0 else j)))"
  by (simp add: bcast2_def)

lemma sub_nd_shape:
  "nrows a = nrows b \<Longrightarrow> ncols a = ncols b \<Longrightarrow>
   \<exists>c. sub_nd a b = Inr c \<and> shape c = [nrows a, ncols a] \<and> length (flat c) = nrows a * ncols a"
  using bcast2_shape [of a b "\<lambda>x y. x - y"] by (auto simp: sub_nd_def)

lemma mul_row_shape:
  "ncols a = length s \<Longrightarrow> \<exists>c. mul_row a s = Inr c \<and> shape c = [nrows a, ncols a]"
  by (simp add: mul_row_def bcast2_def)

lemma col_length: "j < ncols a \<Longrightarrow> \<exists>v. col a j = Inr v \<and> length v = nrows a"
  by (simp add: col_def)

lemma row_length: "i < nrows a \<Longrightarrow> \<exists>v. row a i = Inr v \<and> length v = ncols a"
  by (simp add: row_def)

lemma bcast1_length:
  "length x = length y \<Longrightarrow> \<exists>v. bcast1 f x y = Inr v \<and> length v = length x"
  by (simp add: bcast1_def)

lemma vecmat_length:
  "length v = nrows a \<Longrightarrow> \<exists>w. vecmat v a = Inr w \<and> length w = ncols a"
  by (simp add: vecmat_def)

lemma shape_outer [simp]: "shape (outer a b) = [length a, length b]"
  by (simp add: outer_def)

lemma shape_ctranspose [simp]: "shape (ctranspose a) = [ncols a, nrows a]"
  by (simp add: ctranspose_def)

lemma shape_map_nd [simp]: "shape (map_nd f a) = shape a"
  by (simp add: map_nd_def)

section \<open>Proofs: the Jacobian\<close>

lemma jac_flat_length:
  assumes "shape (phi h) = [m, l]" "shape (u_svd h) = [m, k]" "length (s_inv h) = k"
    and "shape (v_svd h) = [l, k]" "shape (b_matrix h) = [l, n]" "shape (rho h) = [m, n]"
    and "length time = m" "j < l"
  shows "\<exists>jf. jac_flat h time j = Inr jf \<and> length jf = m * n"
proof -
  note rc = shape2_rows shape2_cols
  have ph: "nrows (phi h) = m" "ncols (phi h) = l" using assms(1) by (simp_all add: rc)
  have us: "nrows (u_svd h) = m" "ncols (u_svd h) = k" using assms(2) by (simp_all add: rc)
  have vs: "nrows (v_svd h) = l" "ncols (v_svd h) = k" using assms(4) by (simp_all add: rc)
  have bs: "nrows (b_matrix h) = l" "ncols (b_matrix h) = n" using assms(5) by (simp_all add: rc)
  have rs: "nrows (rho h) = m" "ncols (rho h) = n" using assms(6) by (simp_all add: rc)
  obtain phi_j where 1: "col (phi h) j = Inr phi_j" "length phi_j = m"
    using col_length [of j "phi h"] assms(8) ph by auto
  obtain d where 2: "bcast1 (\<lambda>t z. complex_of_real t * z) time phi_j = Inr d" "length d = m"
    using bcast1_length [of time phi_j] assms(7) 1(2) by auto
  obtain b_j where 3: "row (b_matrix h) j = Inr b_j" "length b_j = n"
    using row_length [of j "b_matrix h"] assms(8) bs by auto
  let ?o = "outer d b_j"
  have o: "nrows ?o = m" "ncols ?o = n" by (simp_all add: nrows_def ncols_def 2 3)
  have ct: "nrows (ctranspose (u_svd h)) = k" "ncols (ctranspose (u_svd h)) = m"
    by (simp_all add: nrows_def ncols_def us [unfolded nrows_def ncols_def])
  obtain p where 4: "multi_dot3 (u_svd h) (ctranspose (u_svd h)) ?o = Inr p" "shape p = [m, n]"
    using multi_dot3_shape [of "u_svd h" "ctranspose (u_svd h)" ?o] us ct o by auto
  obtain a_j where 5: "sub_nd ?o p = Inr a_j" "shape a_j = [m, n]"
    using sub_nd_shape [of ?o p] o 4(2) by (auto simp: rc)
  obtain us' where 6: "mul_row (u_svd h) (s_inv h) = Inr us'" "shape us' = [m, k]"
    using mul_row_shape [of "u_svd h" "s_inv h"] us assms(3) by auto
  obtain v_j where 7: "row (v_svd h) j = Inr v_j" "length v_j = k"
    using row_length [of j "v_svd h"] assms(8) vs by auto
  obtain w where 8: "vecmat (map cnj d) (rho h) = Inr w" "length w = n"
    using vecmat_length [of "map cnj d" "rho h"] 2(2) rs by auto
  let ?g = "outer (map cnj v_j) w"
  have g: "nrows ?g = k" "ncols ?g = n" by (simp_all add: nrows_def ncols_def 7 8)
  obtain g_j where 9: "matmul us' ?g = Inr g_j" "shape g_j = [m, n]"
    using matmul_shape [of us' ?g] 6(2) g by (auto simp: rc)
  have m: "nrows (map_nd uminus a_j) = m" "ncols (map_nd uminus a_j) = n"
    using 5(2) by (simp_all add: nrows_def ncols_def)
  obtain jac where 10: "sub_nd (map_nd uminus a_j) g_j = Inr jac" "length (flat jac) = m * n"
    using sub_nd_shape [of "map_nd uminus a_j" g_j] m 9(2) by (auto simp: rc)
  show ?thesis
    by (simp add: jac_flat_def Let_def 1 2 3 4 5 6 7 8 9 10)
qed

lemma set_col_at:
  assumes "shape a = [R, C]" "j < C" "lo \<le> hi" "hi \<le> R" "length v = hi - lo"
  shows "\<exists>a'. set_col a lo hi j v = Inr a' \<and> shape a' = [R, C] \<and>
    (\<forall>i<R. \<forall>c<C. at2 a' i c = (if c = j \<and> lo \<le> i \<and> i < hi then v ! (i - lo) else at2 a i c))"
proof -
  have r: "nrows a = R" "ncols a = C" using assms(1) by (simp_all add: shape2_rows shape2_cols)
  have "min hi R = hi" "min lo hi = lo" using assms by simp_all
  then show ?thesis using assms r by (simp add: set_col_def Let_def)
qed

lemma jac_assign_at:
  assumes "shape J = [2 * N, C]" "length jf = N" "j < l" "l + j < C"
  shows "\<exists>J'. jac_assign l J j jf = Inr J' \<and> shape J' = [2 * N, C] \<and>
    (\<forall>i<2 * N. \<forall>c<C. at2 J' i c =
       (if c = j then (if i < N then Re (jf ! i) else Im (jf ! (i - N)))
        else if c = l + j then (if i < N then - Im (jf ! i) else Re (jf ! (i - N)))
        else at2 J i c))"
proof -
  have jC: "j < C" using assms(4) by simp
  have half: "nrows J div 2 = N" using assms(1) by (simp add: nrows_def)
  obtain J1 where 1: "set_col J 0 N j (map Re jf) = Inr J1" "shape J1 = [2 * N, C]"
    "\<forall>i<2 * N. \<forall>c<C. at2 J1 i c = (if c = j \<and> 0 \<le> i \<and> i < N then map Re jf ! (i - 0) else at2 J i c)"
    using set_col_at [OF assms(1) jC, of 0 N "map Re jf"] assms(2) by auto
  obtain J2 where 2: "set_col J1 N (2 * N) j (map Im jf) = Inr J2" "shape J2 = [2 * N, C]"
    "\<forall>i<2 * N. \<forall>c<C. at2 J2 i c = (if c = j \<and> N \<le> i \<and> i < 2 * N then map Im jf ! (i - N) else at2 J1 i c)"
    using set_col_at [OF 1(2) jC, of N "2 * N" "map Im jf"] assms(2) by auto
  obtain J3 where 3: "set_col J2 0 N (l + j) (map (\<lambda>z. - Im z) jf) = Inr J3" "shape J3 = [2 * N, C]"
    "\<forall>i<2 * N. \<forall>c<C. at2 J3 i c =
       (if c = l + j \<and> 0 \<le> i \<and> i < N then map (\<lambda>z. - Im z) jf ! (i - 0) else at2 J2 i c)"
    using set_col_at [OF 2(2) assms(4), of 0 N "map (\<lambda>z. - Im z) jf"] assms(2) by auto
  obtain J4 where 4: "set_col J3 N (2 * N) (l + j) (map Re jf) = Inr J4" "shape J4 = [2 * N, C]"
    "\<forall>i<2 * N. \<forall>c<C. at2 J4 i c =
       (if c = l + j \<and> N \<le> i \<and> i < 2 * N then map Re jf ! (i - N) else at2 J3 i c)"
    using set_col_at [OF 3(2) assms(4), of N "2 * N" "map Re jf"] assms(2) by auto
  have n1: "nrows J1 = 2 * N" using 1(2) by (simp add: nrows_def)
  have n3: "nrows J3 = 2 * N" using 3(2) by (simp add: nrows_def)
  have run: "jac_assign l J j jf = Inr J4"
    by (simp add: jac_assign_def Let_def half 1(1) 2(1) 3(1) 4(1) n1 n3)
  have "\<forall>i<2 * N. \<forall>c<C. at2 J4 i c =
       (if c = j then (if i < N then Re (jf ! i) else Im (jf ! (i - N)))
        else if c = l + j then (if i < N then - Im (jf ! i) else Re (jf ! (i - N)))
        else at2 J i c)"
  proof (intro allI impI)
    fix i c assume i: "i < 2 * N" and c: "c < C"
    have lj: "l + j \<noteq> j" using assms(3) by simp
    show "at2 J4 i c =
       (if c = j then (if i < N then Re (jf ! i) else Im (jf ! (i - N)))
        else if c = l + j then (if i < N then - Im (jf ! i) else Re (jf ! (i - N)))
        else at2 J i c)"
      using 1(3) 2(3) 3(3) 4(3) i c lj assms(2) by (auto simp: not_less)
  qed
  then show ?thesis using run 4(2) by blast
qed

lemma jac_loop_inv:
  assumes h: "shape (phi h) = [m, l]" "shape (u_svd h) = [m, k]" "length (s_inv h) = k"
      "shape (v_svd h) = [l, k]" "shape (b_matrix h) = [l, n]" "shape (rho h) = [m, n]"
      "length time = m"
    and "distinct js" "\<forall>j\<in>set js. j < l" "shape J = [2 * (m * n), 2 * l]"
  shows "\<exists>J'. jac_loop h time l js J = Inr J' \<and> shape J' = [2 * (m * n), 2 * l] \<and>
    (\<forall>c<2 * l. c \<notin> set js \<and> c \<notin> (\<lambda>j. l + j) ` set js \<longrightarrow>
       (\<forall>i<2 * (m * n). at2 J' i c = at2 J i c)) \<and>
    (\<forall>j\<in>set js. \<forall>i<m * n.
       at2 J' i (l + j) = - at2 J' (m * n + i) j \<and> at2 J' (m * n + i) (l + j) = at2 J' i j)"
  using assms(8-10)
proof (induction js arbitrary: J)
  case Nil
  then show ?case by simp
next
  case (Cons j js)
  let ?N = "m * n"
  have jl: "j < l" using Cons.prems(2) by simp
  obtain jf where jf: "jac_flat h time j = Inr jf" "length jf = ?N"
    using jac_flat_length [OF h jl] by blast
  have ljC: "l + j < 2 * l" using jl by simp
  obtain J1 where J1: "jac_assign l J j jf = Inr J1" "shape J1 = [2 * ?N, 2 * l]"
    and e1: "\<forall>i<2 * ?N. \<forall>c<2 * l. at2 J1 i c =
       (if c = j then (if i < ?N then Re (jf ! i) else Im (jf ! (i - ?N)))
        else if c = l + j then (if i < ?N then - Im (jf ! i) else Re (jf ! (i - ?N)))
        else at2 J i c)"
    using jac_assign_at [OF Cons.prems(3) jf(2) jl ljC] by blast
  have djs: "distinct js" and bjs: "\<forall>j\<in>set js. j < l" using Cons.prems by simp_all
  obtain J' where J': "jac_loop h time l js J1 = Inr J'" "shape J' = [2 * ?N, 2 * l]"
    and keep: "\<forall>c<2 * l. c \<notin> set js \<and> c \<notin> (\<lambda>j. l + j) ` set js \<longrightarrow>
       (\<forall>i<2 * ?N. at2 J' i c = at2 J1 i c)"
    and rel: "\<forall>j\<in>set js. \<forall>i<?N.
       at2 J' i (l + j) = - at2 J' (?N + i) j \<and> at2 J' (?N + i) (l + j) = at2 J' i j"
    using Cons.IH [OF djs bjs J1(2)] by blast
  have run: "jac_loop h time l (j # js) J = Inr J'" by (simp add: jf(1) J1(1) J'(1))
  have jn: "j \<notin> set js" using Cons.prems(1) by simp
  have c1: "j \<notin> (\<lambda>j. l + j) ` set js" using jl by auto
  have c2: "l + j \<notin> set js" using bjs by auto
  have c3: "l + j \<notin> (\<lambda>j. l + j) ` set js" using jn by auto
  have kj: "\<forall>i<2 * ?N. at2 J' i j = at2 J1 i j"
    using keep jl jn c1 by simp
  have klj: "\<forall>i<2 * ?N. at2 J' i (l + j) = at2 J1 i (l + j)"
    using keep ljC c2 c3 by simp
  have relj: "\<forall>i<?N.
       at2 J' i (l + j) = - at2 J' (?N + i) j \<and> at2 J' (?N + i) (l + j) = at2 J' i j"
  proof (intro allI impI)
    fix i assume i: "i < ?N"
    then have i2: "i < 2 * ?N" "?N + i < 2 * ?N" by simp_all
    have jC: "j < 2 * l" using jl by simp
    have a: "at2 J1 i j = Re (jf ! i)" using e1 i2(1) jC i by simp
    have b: "at2 J1 (?N + i) j = Im (jf ! i)" using e1 i2(2) jC by simp
    have c: "at2 J1 i (l + j) = - Im (jf ! i)" using e1 i2(1) ljC i jl by simp
    have d: "at2 J1 (?N + i) (l + j) = Re (jf ! i)" using e1 i2(2) ljC jl by simp
    show "at2 J' i (l + j) = - at2 J' (?N + i) j \<and> at2 J' (?N + i) (l + j) = at2 J' i j"
      using kj klj i2 a b c d by simp
  qed
  have keep': "\<forall>c<2 * l. c \<notin> set (j # js) \<and> c \<notin> (\<lambda>j. l + j) ` set (j # js) \<longrightarrow>
       (\<forall>i<2 * ?N. at2 J' i c = at2 J i c)"
  proof (intro allI impI)
    fix c i assume c: "c < 2 * l"
      and nc: "c \<notin> set (j # js) \<and> c \<notin> (\<lambda>j. l + j) ` set (j # js)" and i: "i < 2 * ?N"
    have "at2 J' i c = at2 J1 i c" using keep c nc i by simp
    also have "\<dots> = at2 J i c" using e1 c nc i by simp
    finally show "at2 J' i c = at2 J i c" .
  qed
  show ?case using run J'(2) keep' rel relj by simp
qed

lemma alphas_complex_length:
  assumes "length alphas = 2 * r"
  shows "\<exists>a. alphas_complex alphas = Inr a \<and> length a = r"
proof -
  have "alphas = take r alphas @ drop r alphas" by simp
  moreover have "length (take r alphas) = length (drop r alphas)" using assms by simp
  ultimately have "alphas_complex alphas = Inr (map2 Complex (take r alphas) (drop r alphas))"
    using alphas_complex_even [of "take r alphas" "drop r alphas"] by simp
  then show ?thesis using assms by simp
qed

text \<open>
  C6. For a real-split parameter vector of length \<open>2r\<close>, a time vector of length \<open>m\<close> and an
  \<open>m \<times> n\<close> data matrix, with the helper holding the quantities of the residual evaluation
  in their shapes (\<open>phi\<close> \<open>m \<times> r\<close>, \<open>u_svd\<close> \<open>m \<times> k\<close>, \<open>s_inv\<close> of length \<open>k\<close>, \<open>v_svd\<close> \<open>r \<times> k\<close>,
  \<open>b_matrix\<close> \<open>r \<times> n\<close>, \<open>rho\<close> \<open>m \<times> n\<close>), \<^verbatim>\<open>__compute_dmd_jac\<close> returns a real matrix of shape
  \<open>(2mn, 2r)\<close>, and for each \<open>j < r\<close> the column \<open>r + j\<close> (imaginary part of \<open>\<alpha>\<^sub>j\<close>) is the
  column \<open>j\<close> rotated: its top half is the negated bottom half of column \<open>j\<close>, its bottom half
  the top half of column \<open>j\<close>.
\<close>

theorem compute_dmd_jac_shape_rotation:
  assumes "length alphas = 2 * r" "length time = m" "shape data = [m, n]"
    and "shape (phi h) = [m, r]" "shape (u_svd h) = [m, k]" "length (s_inv h) = k"
    and "shape (v_svd h) = [r, k]" "shape (b_matrix h) = [r, n]" "shape (rho h) = [m, n]"
  shows "\<exists>J. compute_dmd_jac alphas time data h = Inr J \<and> shape J = [2 * (m * n), 2 * r] \<and>
    (\<forall>j<r. \<forall>i<m * n.
       at2 J i (r + j) = - at2 J (m * n + i) j \<and> at2 J (m * n + i) (r + j) = at2 J i j)"
proof -
  obtain a where a: "alphas_complex alphas = Inr a" "length a = r"
    using alphas_complex_length [OF assms(1)] by blast
  have sz: "size_nd data = m * n" using assms(3) by (simp add: size_nd_def)
  have z: "shape (zeros (2 * (m * n)) (2 * r)) = [2 * (m * n), 2 * r]" by (simp add: zeros_def)
  have d: "distinct [0..<r]" and b: "\<forall>j\<in>set [0..<r]. j < r" by simp_all
  obtain J where J: "jac_loop h time r [0..<r] (zeros (2 * (m * n)) (2 * r)) = Inr J"
      "shape J = [2 * (m * n), 2 * r]"
    and rel: "\<forall>j\<in>set [0..<r]. \<forall>i<m * n.
       at2 J i (r + j) = - at2 J (m * n + i) j \<and> at2 J (m * n + i) (r + j) = at2 J i j"
    using jac_loop_inv [OF assms(4-9) assms(2) d b z] by blast
  have "compute_dmd_jac alphas time data h = Inr J"
    by (simp add: compute_dmd_jac_def a sz assms(1) J(1) Let_def)
  then show ?thesis using J(2) rel by simp
qed

theorem compute_dmd_jac_shape_rotation_witness:
  "\<exists>J. compute_dmd_jac [0, 0] [0] (mat 1 1 (\<lambda>i j. 1))
          \<lparr>phi = mat 1 1 (\<lambda>i j. 1), u_svd = mat 1 1 (\<lambda>i j. 1), s_inv = [1],
           v_svd = mat 1 1 (\<lambda>i j. 1), b_matrix = mat 1 1 (\<lambda>i j. 1),
           rho = mat 1 1 (\<lambda>i j. 0)\<rparr> = Inr J \<and>
        shape J = [2, 2] \<and> at2 J 0 1 = - at2 J 1 0 \<and> at2 J 1 1 = at2 J 0 0"
proof -
  let ?h = "\<lparr>phi = mat 1 1 (\<lambda>i j. 1), u_svd = mat 1 1 (\<lambda>i j. 1), s_inv = [1],
           v_svd = mat 1 1 (\<lambda>i j. 1), b_matrix = mat 1 1 (\<lambda>i j. 1),
           rho = mat 1 1 (\<lambda>i j. 0)\<rparr>"
  have "\<exists>J. compute_dmd_jac [0, 0] [0] (mat 1 1 (\<lambda>i j. 1)) ?h = Inr J \<and>
      shape J = [2 * (1 * 1), 2 * 1] \<and>
      (\<forall>j<1. \<forall>i<1 * 1.
         at2 J i (1 + j) = - at2 J (1 * 1 + i) j \<and> at2 J (1 * 1 + i) (1 + j) = at2 J i j)"
    by (rule compute_dmd_jac_shape_rotation [where k = 1]) simp_all
  then show ?thesis by simp
qed

section \<open>Proofs: the residual\<close>

lemma alphas_complex_split:
  assumes "length alphas = 2 * l"
  shows "alphas_complex alphas = Inr (map2 Complex (take l alphas) (drop l alphas))"
proof -
  have "length (take l alphas) = length (drop l alphas)" using assms by simp
  then have "alphas_complex (take l alphas @ drop l alphas) =
      Inr (map2 Complex (take l alphas) (drop l alphas))"
    by (rule alphas_complex_even)
  then show ?thesis by simp
qed

lemma matmul_zero_left:
  assumes "ncols a = nrows b" "\<forall>i<nrows a. \<forall>k<ncols a. at2 a i k = 0"
  shows "\<exists>c. matmul a b = Inr c \<and> shape c = [nrows a, ncols b] \<and>
    (\<forall>i<nrows a. \<forall>j<ncols b. at2 c i j = 0)"
proof -
  have "\<forall>i<nrows a. \<forall>j<ncols b. (\<Sum>k<ncols a. at2 a i k * at2 b k j) = 0"
    using assms(2) by simp
  then show ?thesis using assms(1) by (simp add: matmul_def)
qed

lemma mul_row_zero:
  assumes "ncols a = length s" "\<forall>x\<in>set s. x = 0"
  shows "\<exists>c. mul_row a s = Inr c \<and> shape c = [nrows a, ncols a] \<and>
    (\<forall>i<nrows a. \<forall>j<ncols a. at2 c i j = 0)"
proof -
  have z: "\<forall>j<length s. s ! j = 0" using assms(2) by simp
  have "bdim (nrows a) 1 = Some (nrows a)" by simp
  then show ?thesis using assms(1) z
    by (cases "length s = 1") (simp_all add: mul_row_def bcast2_def)
qed

lemma compute_dmd_rho_run:
  assumes "length alphas = 2 * l" "length time = m" "shape data = [m, n]"
    and "svd (map_nd exp (outer (map complex_of_real time)
           (map2 Complex (take l alphas) (drop l alphas)))) = Inr (u, s, v_t)"
    and "shape u = [m, k]" "length s = k" "shape v_t = [k, l]"
  shows "\<exists>r vs b. compute_dmd_rho svd alphas time data h =
      Inr (map Re (flat r) @ map Im (flat r),
           h\<lparr>phi := map_nd exp (outer (map complex_of_real time)
                      (map2 Complex (take l alphas) (drop l alphas))),
             u_svd := u, s_inv := map (\<lambda>x. if x \<noteq> 0 then 1 / x else 0) s,
             v_svd := ctranspose v_t, rho := r, b_matrix := b\<rparr>) \<and>
      shape r = [m, n] \<and> length (flat r) = m * n \<and>
      mul_row (ctranspose v_t) (map (\<lambda>x. if x \<noteq> 0 then 1 / x else 0) s) = Inr vs \<and>
      shape vs = [l, k] \<and>
      multi_dot3 vs (ctranspose u) data = Inr b \<and> shape b = [l, n]"
proof -
  note rc = shape2_rows shape2_cols
  let ?si = "map (\<lambda>x. if x \<noteq> 0 then 1 / x else 0) s"
  have a: "alphas_complex alphas = Inr (map2 Complex (take l alphas) (drop l alphas))"
    by (rule alphas_complex_split [OF assms(1)])
  have us: "nrows u = m" "ncols u = k" using assms(5) by (simp_all add: rc)
  have ds: "nrows data = m" "ncols data = n" using assms(3) by (simp_all add: rc)
  have vt: "nrows v_t = k" "ncols v_t = l" using assms(7) by (simp_all add: rc)
  have ct: "nrows (ctranspose u) = k" "ncols (ctranspose u) = m"
    by (simp_all add: nrows_def ncols_def us [unfolded nrows_def ncols_def])
  have cv: "nrows (ctranspose v_t) = l" "ncols (ctranspose v_t) = k"
    by (simp_all add: nrows_def ncols_def vt [unfolded nrows_def ncols_def])
  obtain p where p: "multi_dot3 u (ctranspose u) data = Inr p" "shape p = [m, n]"
    using multi_dot3_shape [of u "ctranspose u" data] us ct ds by auto
  obtain r where r: "sub_nd data p = Inr r" "shape r = [m, n]" "length (flat r) = m * n"
    using sub_nd_shape [of data p] ds p(2) by (auto simp: rc)
  let ?N = "length (flat r)"
  have s1: "set_slice 0 ?N (replicate (2 * ?N) 0) (map Re (flat r)) =
      Inr (map Re (flat r) @ replicate ?N 0)"
    by (simp add: set_slice_exact)
  have s2: "set_slice ?N (length (map Re (flat r) @ replicate ?N (0::real)))
      (map Re (flat r) @ replicate ?N 0) (map Im (flat r)) =
      Inr (map Re (flat r) @ map Im (flat r))"
    by (simp add: set_slice_exact)
  obtain vs where vs: "mul_row (ctranspose v_t) ?si = Inr vs" "shape vs = [l, k]"
    using mul_row_shape [of "ctranspose v_t" ?si] cv assms(6) by auto
  have vss: "nrows vs = l" "ncols vs = k" using vs(2) by (simp_all add: rc)
  obtain b where b: "multi_dot3 vs (ctranspose u) data = Inr b" "shape b = [l, n]"
    using multi_dot3_shape [of vs "ctranspose u" data] vss ct ds by auto
  have "compute_dmd_rho svd alphas time data h =
      Inr (map Re (flat r) @ map Im (flat r),
           h\<lparr>phi := map_nd exp (outer (map complex_of_real time)
                      (map2 Complex (take l alphas) (drop l alphas))),
             u_svd := u, s_inv := ?si, v_svd := ctranspose v_t, rho := r, b_matrix := b\<rparr>)"
    unfolding compute_dmd_rho_def Let_def a ebind_Inr assms(4) prod.case p(1) r(1) s1 s2 vs(1) b(1)
    by simp
  then show ?thesis using r(2,3) vs b by blast
qed




section \<open>Proofs: the operator\<close>

lemma sort_eigs_invalid:
  assumes "policy \<noteq> ''auto''" "policy \<noteq> ''real''" "policy \<noteq> ''imag''" "policy \<noteq> ''abs''"
  shows "sort_eigs (PStr policy) modes eigenvalues eigenf =
    Inl (ValueError (policy @ '' not supported!''))"
  using assms by (simp add: sort_eigs_def eigs_abs_def)




section \<open>Proofs: the fit\<close>

lemma shape_cols_upto [simp]: "shape (cols_upto a r) = [nrows a, min r (ncols a)]"
  by (simp add: cols_upto_def)

lemma shape_rows_upto [simp]: "shape (rows_upto a r) = [min r (nrows a), ncols a]"
  by (simp add: rows_upto_def)

lemma shape_cols_butlast [simp]: "shape (cols_butlast a) = [nrows a, ncols a - 1]"
  by (simp add: cols_butlast_def)

lemma shape_cols_from1 [simp]: "shape (cols_from1 a) = [nrows a, ncols a - 1]"
  by (simp add: cols_from1_def)

lemma shape_transpose_nd [simp]: "shape (transpose_nd a) = [ncols a, nrows a]"
  by (simp add: transpose_nd_def)

lemma shape_take_cols [simp]: "shape (take_cols a idx) = [nrows a, length idx]"
  by (simp add: take_cols_def)

lemma mul_col_shape:
  "nrows a = length s \<Longrightarrow> \<exists>c. mul_col a s = Inr c \<and> shape c = [nrows a, ncols a]"
  by (simp add: mul_col_def bcast2_def)

lemma div_row_shape:
  "ncols a = length d \<Longrightarrow> \<exists>c. div_row a d = Inr c \<and> shape c = [nrows a, ncols a]"
  by (simp add: div_row_def bcast2_def)

lemma add_nd_shape:
  "nrows a = nrows b \<Longrightarrow> ncols a = ncols b \<Longrightarrow>
   \<exists>c. add_nd a b = Inr c \<and> shape c = [nrows a, ncols a]"
  by (simp add: add_nd_def bcast2_def)

lemma compute_rank_int:
  "1 \<le> r \<Longrightarrow> compute_rank (vec sg) rows cols (RInt (int r)) sigma = Inr (min r (length sg))"
  by (simp add: compute_rank_def Let_def size_nd_def vec_def)

lemma compute_dmd_ev_run:
  assumes "shape x_current = [p, q]" "shape x_next = [p, q]" "1 \<le> r"
    and "svd x_current = Inr (u_x, sigma_x, v_x_t)"
    and "shape u_x = [p, k]" "length sigma_x = k" "shape v_x_t = [k, q]" "0 \<notin> set sigma_x"
    and "\<And>a. shape a = [min r k, min r k] \<Longrightarrow>
           \<exists>ev. eigvals a = Inr ev \<and> length ev = min r k"
  shows "\<exists>omegas. compute_dmd_ev svd eigvals x_current x_next True r = Inr omegas \<and>
    length omegas = min r k"
proof -
  note rc = shape2_rows shape2_cols
  let ?r = "min r k"
  have xs: "nrows x_current = p" "ncols x_current = q" "nrows x_next = p" "ncols x_next = q"
    using assms(1,2) by (simp_all add: rc)
  have cr: "compute_rank (vec sigma_x) p q (RInt (int r)) None = Inr ?r"
    using compute_rank_int [OF assms(3)] assms(6) by simp
  let ?sg = "take ?r sigma_x"
  let ?si = "map (\<lambda>x. 1 / x) ?sg"
  let ?v = "ctranspose (rows_upto v_x_t ?r)"
  let ?u = "ctranspose (cols_upto u_x ?r)"
  have vs: "nrows ?v = q" "ncols ?v = ?r"
    using assms(7) by (simp_all add: nrows_def ncols_def)
  have us: "nrows ?u = ?r" "ncols ?u = p"
    using assms(5) by (simp_all add: nrows_def ncols_def)
  have "ncols ?v = length ?si" using vs(2) assms(6) by simp
  then obtain w where w: "mul_row ?v ?si = Inr w" "shape w = [nrows ?v, ncols ?v]"
    using mul_row_shape [of ?v ?si] by blast
  have ws: "nrows w = q" "ncols w = ?r" using w(2) vs by (simp_all add: rc)
  obtain a where a: "multi_dot3 ?u x_next w = Inr a" "shape a = [nrows ?u, ncols w]"
    using multi_dot3_shape [of ?u x_next w] us xs ws by auto
  have sa: "shape a = [?r, ?r]" using a(2) us ws by simp
  obtain ev where ev: "eigvals a = Inr ev" "length ev = ?r" using assms(9) [OF sa] by blast
  have nz: "0 \<notin> set ?sg" using assms(8) in_set_takeD by fastforce
  have "compute_dmd_ev svd eigvals x_current x_next True r = Inr ev"
    unfolding compute_dmd_ev_def assms(4) ebind_Inr prod.case xs cr Let_def w(1) a(1)
    using nz ev(1) by simp
  then show ?thesis using ev(2) by simp
qed

lemma dt_in_nonzero:
  assumes "\<forall>i. Suc i < length time \<longrightarrow> time ! Suc i \<noteq> (time ! i :: real)"
  shows "0 \<notin> set (map2 (\<lambda>a b. a - b) (tl time) (butlast time))"
proof
  assume "0 \<in> set (map2 (\<lambda>a b. a - b) (tl time) (butlast time))"
  then obtain i where i: "i < length (map2 (\<lambda>a b. a - b) (tl time) (butlast time))"
      "map2 (\<lambda>a b. a - b) (tl time) (butlast time) ! i = 0"
    by (metis in_set_conv_nth)
  have l: "i < length time - 1" using i(1) by simp
  then have "tl time ! i - butlast time ! i = 0" using i(2) by simp
  moreover have "tl time ! i = time ! Suc i" using l by (simp add: nth_tl)
  moreover have "butlast time ! i = time ! i" using l by (simp add: nth_butlast)
  ultimately have "time ! Suc i = time ! i" by simp
  moreover have "Suc i < length time" using l by simp
  ultimately show False using assms by blast
qed

lemma varpro_init_run:
  assumes "shape data = [n, m]" "length time = m" "1 \<le> r"
    and "linalg_svd be data = Inr (u, s, v_t)"
    and "shape u = [n, k]" "length s = k" "shape v_t = [k, m]"
    and "compute_rank (vec s) n m rank None = Inr r"
    and "p = (if use_proj then min r k else n)"
    and "\<And>a. shape a = [p, m - 1] \<Longrightarrow>
           \<exists>ux sx vxt. linalg_svd be a = Inr (ux, sx, vxt) \<and> shape ux = [p, k2] \<and>
             length sx = k2 \<and> shape vxt = [k2, m - 1] \<and> 0 \<notin> set sx"
    and "\<And>a. shape a = [min r k2, min r k2] \<Longrightarrow>
           \<exists>ev. linalg_eigvals be a = Inr ev \<and> length ev = min r k2"
    and "\<forall>i. Suc i < m \<longrightarrow> time ! Suc i \<noteq> time ! i"
  shows "\<exists>u_r data_in omegas.
    varpro_init be data time rank use_proj =
      Inr (u_r, data_in, omegas, map Re omegas @ map Im omegas) \<and>
    shape u_r = [n, min r k] \<and> shape data_in = [p, m] \<and> length omegas = min r k2"
proof -
  note rc = shape2_rows shape2_cols
  have ds: "nrows data = n" "ncols data = m" using assms(1) by (simp_all add: rc)
  let ?u_r = "cols_upto u r"
  let ?s_r = "take r s"
  let ?v_r = "ctranspose (rows_upto v_t r)"
  have ur: "shape ?u_r = [n, min r k]" using assms(5) by (simp add: rc)
  have vr: "nrows (ctranspose ?v_r) = min r k" "ncols (ctranspose ?v_r) = m"
    using assms(7) by (simp_all add: nrows_def ncols_def)
  obtain data_in where di:
      "(if use_proj then mul_col (ctranspose ?v_r) ?s_r else Inr data) = Inr data_in"
      "shape data_in = [p, m]"
  proof (cases use_proj)
    case True
    have "nrows (ctranspose ?v_r) = length ?s_r" using vr(1) assms(6) by simp
    then obtain c where "mul_col (ctranspose ?v_r) ?s_r = Inr c"
        "shape c = [nrows (ctranspose ?v_r), ncols (ctranspose ?v_r)]"
      using mul_col_shape by blast
    then show ?thesis using that True vr assms(9) by simp
  next
    case False
    then show ?thesis using that assms(1,9) by simp
  qed
  have dis: "nrows data_in = p" "ncols data_in = m" using di(2) by (simp_all add: rc)
  obtain sm where sm: "add_nd (cols_butlast data_in) (cols_from1 data_in) = Inr sm"
      "shape sm = [p, m - 1]"
    using add_nd_shape [of "cols_butlast data_in" "cols_from1 data_in"] dis
    by (auto simp: nrows_def ncols_def)
  let ?y = "map_nd (\<lambda>z. z / 2) sm"
  let ?dt = "map2 (\<lambda>a b. a - b) (tl time) (butlast time)"
  have ys: "shape ?y = [p, m - 1]" using sm(2) by simp
  obtain df where df: "sub_nd (cols_from1 data_in) (cols_butlast data_in) = Inr df"
      "shape df = [p, m - 1]"
    using sub_nd_shape [of "cols_from1 data_in" "cols_butlast data_in"] dis
    by (auto simp: nrows_def ncols_def)
  have "ncols df = length ?dt" using df(2) assms(2) by (simp add: rc)
  then obtain z where z: "div_row df ?dt = Inr z" "shape z = [nrows df, ncols df]"
    using div_row_shape by blast
  have zs: "shape z = [p, m - 1]" using z(2) df(2) by (simp add: rc)
  obtain ux sx vxt where sv: "linalg_svd be ?y = Inr (ux, sx, vxt)" "shape ux = [p, k2]"
      "length sx = k2" "shape vxt = [k2, m - 1]" "0 \<notin> set sx"
    using assms(10) [OF ys] by blast
  have fin: "(0 \<notin> set ?dt) = True" using dt_in_nonzero [of time] assms(2,12) by simp
  obtain omegas where om:
      "compute_dmd_ev (linalg_svd be) (linalg_eigvals be) ?y z True r = Inr omegas"
      "length omegas = min r k2"
    using compute_dmd_ev_run [where svd = "linalg_svd be" and eigvals = "linalg_eigvals be",
        OF ys zs assms(3) sv assms(11)] by blast
  have "varpro_init be data time rank use_proj =
      Inr (?u_r, data_in, omegas, map Re omegas @ map Im omegas)"
    unfolding varpro_init_def assms(4) ebind_Inr prod.case ds assms(8) Let_def di(1) sm(1)
      df(1) z(1) fin om(1) omegas_in_eq
    by (rule refl)
  then show ?thesis using ur di(2) om(2) by blast
qed

lemma varpro_compress_run:
  assumes "shape data_in = [p, m]" "length time = m"
    and "py_positive compression \<Longrightarrow>
      \<exists>idx. select_best_samples_fast (linalg_qr be) data_in compression = Inr idx \<and>
        set idx \<subseteq> {0..<m}"
  shows "\<exists>data_in' time_in indices.
    varpro_compress be data_in time compression = Inr (data_in', time_in, indices) \<and>
    shape data_in' = [p, length indices] \<and> length time_in = length indices \<and>
    (\<not> py_positive compression \<longrightarrow> indices = [0..<m]) \<and>
    (py_positive compression \<longrightarrow>
       (\<exists>idx. select_best_samples_fast (linalg_qr be) data_in compression = Inr idx \<and>
          indices = (if 1 < length idx then idx else [0..<m])))"
proof (cases "py_positive compression")
  case False
  then show ?thesis using assms(1,2)
    by (simp add: varpro_compress_def shape2_rows shape2_cols)
next
  case True
  note rc = shape2_rows shape2_cols
  have ds: "nrows data_in = p" "ncols data_in = m" using assms(1) by (simp_all add: rc)
  obtain idx where idx: "select_best_samples_fast (linalg_qr be) data_in compression = Inr idx"
      "set idx \<subseteq> {0..<m}"
    using assms(3) [OF True] by blast
  let ?ind = "if 1 < length idx then idx else [0..<ncols data_in]"
  have sub: "\<forall>i\<in>set ?ind. i < m" using idx(2) ds by auto
  have ic: "index_cols data_in ?ind = Inr (take_cols data_in ?ind)"
    using sub ds by (simp add: index_cols_def)
  have iv: "index_vec time ?ind = Inr (map (\<lambda>i. time ! i) ?ind)"
    using sub assms(2) by (simp add: index_vec_def)
  have "varpro_compress be data_in time compression =
      Inr (take_cols data_in ?ind, map (\<lambda>i. time ! i) ?ind, ?ind)"
    unfolding varpro_compress_def idx(1) ebind_Inr Let_def ic iv using True by simp
  moreover have "shape (take_cols data_in ?ind) = [p, length ?ind]" using ds by simp
  moreover have "\<exists>idx'. select_best_samples_fast (linalg_qr be) data_in compression = Inr idx' \<and>
      ?ind = (if 1 < length idx' then idx' else [0..<m])"
    using idx(1) ds by simp
  ultimately show ?thesis using True by (metis length_map)
qed

lemma length_norm_axis0 [simp]: "length (norm_axis0 a) = ncols a"
  by (simp add: norm_axis0_def)

lemma varpro_finish_run:
  assumes "shape data_in = [p, m']" "length omegas = l" "use_proj \<Longrightarrow> ncols u_r = p"
    and "nrows u_r = n"
    and "compute_dmd_varpro be oin time_in (transpose_nd data_in)
           (OptimizeHelper (ncols u_r) p m') optargs = Inr (opt, h')"
    and "length (opt_x opt) = 2 * l" "shape (b_matrix h') = [l, p]"
  shows "\<exists>modes omegas' eigenf.
    varpro_finish be optargs use_proj u_r omegas oin data_in time_in indices =
      Inr (modes, omegas', eigenf, indices, opt) \<and>
    length omegas' = l \<and> length eigenf = l \<and>
    shape modes = [if use_proj then n else p, l]"
proof -
  note rc = shape2_rows shape2_cols
  have ds: "nrows data_in = p" "ncols data_in = m'" using assms(1) by (simp_all add: rc)
  have bs: "nrows (b_matrix h') = l" "ncols (b_matrix h') = p" using assms(7) by (simp_all add: rc)
  let ?x = "opt_x opt"
  have h: "length ?x div 2 = l" using assms(6) by simp
  let ?o1 = "map2 (\<lambda>x c. Complex x (Im c)) (take l ?x) omegas"
  have o1: "set_real omegas (take l ?x) = Inr ?o1"
    using assms(2,6) by (simp add: set_real_exact)
  let ?o2 = "map2 (\<lambda>y c. Complex (Re c) y) (drop l ?x) ?o1"
  have o2: "set_imag ?o1 (drop l ?x) = Inr ?o2"
    using assms(2,6) by (simp add: set_imag_exact)
  have lo2: "length ?o2 = l" using assms(2,6) by simp
  let ?bt = "transpose_nd (b_matrix h')"
  obtain xi where xi:
      "(if use_proj then matmul u_r ?bt else Inr ?bt) = Inr xi"
      "shape xi = [if use_proj then n else p, l]"
  proof (cases use_proj)
    case True
    have "ncols u_r = nrows ?bt" using assms(3) [OF True] bs by (simp add: nrows_def)
    then obtain c where "matmul u_r ?bt = Inr c" "shape c = [nrows u_r, ncols ?bt]"
      using matmul_shape by blast
    then show ?thesis using that True assms(4) bs by (simp add: ncols_def)
  next
    case False
    then show ?thesis using that bs by simp
  qed
  have xs: "ncols xi = l" using xi(2) by (simp add: rc)
  then have "ncols xi = length (norm_axis0 xi)" by simp
  then obtain modes where md: "div_row xi (norm_axis0 xi) = Inr modes"
      "shape modes = [nrows xi, ncols xi]"
    using div_row_shape by blast
  have ms: "shape modes = [if use_proj then n else p, l]" using md(2) xi(2) by (simp add: rc)
  have "varpro_finish be optargs use_proj u_r omegas oin data_in time_in indices =
      Inr (modes, ?o2, norm_axis0 xi, indices, opt)"
    unfolding varpro_finish_def Let_def ds assms(5) ebind_Inr prod.case h o1 o2 xi(1) md(1)
    by (rule refl)
  then show ?thesis using lo2 xs ms by auto
qed

lemma compute_varprodmd_any_run:
  assumes "shape data = [n, m]" "shape time = [m]" "length (flat time) = m" "1 \<le> r"
    and "linalg_svd be data = Inr (u, s, v_t)"
    and "shape u = [n, k]" "length s = k" "shape v_t = [k, m]"
    and "compute_rank (vec s) n m rank None = Inr r"
    and "p = (if use_proj then min r k else n)"
    and "\<And>a. shape a = [p, m - 1] \<Longrightarrow>
           \<exists>ux sx vxt. linalg_svd be a = Inr (ux, sx, vxt) \<and> shape ux = [p, k2] \<and>
             length sx = k2 \<and> shape vxt = [k2, m - 1] \<and> 0 \<notin> set sx"
    and "\<And>a. shape a = [min r k2, min r k2] \<Longrightarrow>
           \<exists>ev. linalg_eigvals be a = Inr ev \<and> length ev = min r k2"
    and "\<forall>i. Suc i < m \<longrightarrow> flat time ! Suc i \<noteq> flat time ! i"
    and "\<And>d. shape d = [p, m] \<Longrightarrow> py_positive compression \<Longrightarrow>
           \<exists>idx. select_best_samples_fast (linalg_qr be) d compression = Inr idx \<and>
             set idx \<subseteq> {0..<m}"
    and "\<And>x t d h. length x = 2 * min r k2 \<Longrightarrow> shape d = [length t, p] \<Longrightarrow>
           \<exists>opt h'. compute_dmd_varpro be x t d h optargs = Inr (opt, h') \<and>
             length (opt_x opt) = 2 * min r k2 \<and> shape (b_matrix h') = [min r k2, p]"
  shows "\<exists>modes omegas eigenf indices opt ws.
    compute_varprodmd_any be data time optargs rank use_proj compression =
      Inr ((modes, omegas, eigenf, indices, opt), ws) \<and>
    length omegas = min r k2 \<and> length (opt_x opt) = 2 * length omegas \<and>
    (ws = [UserWarning (''Attempting to solve underdeterimined system. '' @
                        ''Decrease desired rank or compression!'')] \<longleftrightarrow>
       length indices < length omegas) \<and>
    (ws = [] \<longleftrightarrow> \<not> length indices < length omegas) \<and>
    (\<not> py_positive compression \<longrightarrow> indices = [0..<m]) \<and>
    (py_positive compression \<longrightarrow>
       (\<exists>d idx. shape d = [p, m] \<and>
          select_best_samples_fast (linalg_qr be) d compression = Inr idx \<and>
          indices = (if 1 < length idx then idx else [0..<m])))"
proof -
  note rc = shape2_rows shape2_cols
  let ?l = "min r k2"
  obtain u_r data_in omegas where init:
      "varpro_init be data (flat time) rank use_proj =
         Inr (u_r, data_in, omegas, map Re omegas @ map Im omegas)"
      "shape u_r = [n, min r k]" "shape data_in = [p, m]" "length omegas = ?l"
    using varpro_init_run [OF assms(1) assms(3) assms(4) assms(5) assms(6) assms(7) assms(8)
        assms(9) assms(10) assms(11) assms(12) assms(13)] by blast
  obtain data_in' time_in indices where cmp:
      "varpro_compress be data_in (flat time) compression = Inr (data_in', time_in, indices)"
      "shape data_in' = [p, length indices]" "length time_in = length indices"
      "\<not> py_positive compression \<longrightarrow> indices = [0..<m]"
      "py_positive compression \<longrightarrow>
         (\<exists>idx. select_best_samples_fast (linalg_qr be) data_in compression = Inr idx \<and>
            indices = (if 1 < length idx then idx else [0..<m]))"
    using varpro_compress_run [OF init(3) assms(3) assms(14) [OF init(3)]] by blast
  let ?oin = "map Re omegas @ map Im omegas"
  have lo: "length ?oin = 2 * ?l" using init(4) by simp
  have td: "shape (transpose_nd data_in') = [length time_in, p]"
    using cmp(2,3) by (simp add: rc)
  obtain opt h' where sol:
      "compute_dmd_varpro be ?oin time_in (transpose_nd data_in')
         (OptimizeHelper (ncols u_r) p (length indices)) optargs = Inr (opt, h')"
      "length (opt_x opt) = 2 * ?l" "shape (b_matrix h') = [?l, p]"
    using assms(15) [OF lo td] by blast
  have up: "use_proj \<Longrightarrow> ncols u_r = p" using init(2) assms(10) by (simp add: rc)
  have un: "nrows u_r = n" using init(2) by (simp add: rc)
  obtain modes omegas' eigenf where fin:
      "varpro_finish be optargs use_proj u_r omegas ?oin data_in' time_in indices =
         Inr (modes, omegas', eigenf, indices, opt)"
      "length omegas' = ?l"
    using varpro_finish_run [OF cmp(2) init(4) up un sol] by blast
  have nc: "ncols data_in' = length indices" using cmp(2) by (simp add: rc)
  have run: "compute_varprodmd_any be data time optargs rank use_proj compression =
      Inr ((modes, omegas', eigenf, indices, opt), underdetermined_warning data_in' omegas)"
    unfolding compute_varprodmd_any_def init(1) ebind_Inr prod.case cmp(1) Let_def fin(1)
    using assms(1,2) by simp
  have w: "underdetermined_warning data_in' omegas =
      (if length indices < ?l
       then [UserWarning (''Attempting to solve underdeterimined system. '' @
                          ''Decrease desired rank or compression!'')]
       else [])"
    by (simp add: underdetermined_warning_def nc init(4))
  have sel: "py_positive compression \<longrightarrow>
      (\<exists>d idx. shape d = [p, m] \<and>
         select_best_samples_fast (linalg_qr be) d compression = Inr idx \<and>
         indices = (if 1 < length idx then idx else [0..<m]))"
    using cmp(5) init(3) by blast
  show ?thesis
    unfolding run w using fin(2) sol(2) cmp(4) sel by auto
qed

lemma identity_svd_shapes:
  assumes "svd = (\<lambda>a. Inr (mat (nrows a) (min (nrows a) (ncols a)) (\<lambda>i j. if i = j then 1 else 0),
      replicate (min (nrows a) (ncols a)) (1::real),
      mat (min (nrows a) (ncols a)) (ncols a) (\<lambda>i j. if i = j then 1 else 0)))"
    and "shape a = [p, q]"
  shows "\<exists>ux sx vxt. svd a = Inr (ux, sx, vxt) \<and> shape ux = [p, min p q] \<and>
    length sx = min p q \<and> shape vxt = [min p q, q] \<and> 0 \<notin> set sx"
  using assms(2) by (simp add: assms(1) nrows_def ncols_def)

lemma one_step_solver:
  assumes "linalg_svd be =
      (\<lambda>a. Inr (mat (nrows a) (min (nrows a) (ncols a)) (\<lambda>i j. if i = j then 1 else 0),
        replicate (min (nrows a) (ncols a)) 1,
        mat (min (nrows a) (ncols a)) (ncols a) (\<lambda>i j. if i = j then 1 else 0)))"
    and "optimize_least_squares be =
      (\<lambda>optargs f jac x h. ebind (f x h) (\<lambda>(residual, h'). Inr (\<lparr>opt_x = x\<rparr>, h')))"
    and "length x = 2 * l" "shape d = [length t, p]"
  shows "\<exists>opt h'. compute_dmd_varpro be x t d h optargs = Inr (opt, h') \<and>
    length (opt_x opt) = 2 * l \<and> shape (b_matrix h') = [l, p]"
proof -
  let ?P = "map_nd exp (outer (map complex_of_real t) (map2 Complex (take l x) (drop l x)))"
  have sp: "shape ?P = [length t, l]" using assms(3) by simp
  obtain u s v_t where sv: "linalg_svd be ?P = Inr (u, s, v_t)"
      "shape u = [length t, min (length t) l]" "length s = min (length t) l"
      "shape v_t = [min (length t) l, l]"
    using identity_svd_shapes [OF assms(1) sp] by blast
  obtain r vs b where run: "compute_dmd_rho (linalg_svd be) x t d h =
      Inr (map Re (flat r) @ map Im (flat r),
           h\<lparr>phi := ?P, u_svd := u, s_inv := map (\<lambda>x. if x \<noteq> 0 then 1 / x else 0) s,
             v_svd := ctranspose v_t, rho := r, b_matrix := b\<rparr>)"
    and b: "shape b = [l, p]"
    using compute_dmd_rho_run [where svd = "linalg_svd be" and h = h,
        OF assms(3) refl assms(4) sv] by blast
  show ?thesis
    by (simp add: compute_dmd_varpro_def assms(2) assms(3) run b)
qed

lemma n_samples_half: "f_trunc (f_mul (f_of_int 4) (f_sub (F64 1 0) (F64 1 (- 1)))) = 2"
  by code_simp

lemma f_less_half: "f_less (F64 0 0) (F64 1 (- 1)) \<and> f_less (F64 1 (- 1)) (F64 1 0)"
  by code_simp





end
